theory Spec2Isabelle
  imports Complex_Main "HOL-Library.Multiset"
begin

section \<open>The demobid exchange: data\<close>

text \<open>
  The program is one Go file, \<^verbatim>\<open>main.go\<close>: a bid endpoint (\<^verbatim>\<open>HandlerBid\<close>) that answers a
  price for a floor price, and an auction endpoint (\<^verbatim>\<open>HandlerAuction\<close>) that asks the
  bid endpoint once per bidder (\<^verbatim>\<open>askDSP\<close>, \<^verbatim>\<open>makeBidURL\<close>), collects the answers and
  takes the highest.

  Numbers. A Go \<^verbatim>\<open>float64\<close> is modelled as a \<open>real\<close>: the arithmetic of the model is exact,
  there is no rounding error, no overflow, no infinity and no NaN. The counterexamples
  of this theory use numbers on which every float64 operation of the source is exact
  (integers and small dyadic fractions), so they are runs of the Go program as they
  stand. A Go \<^verbatim>\<open>int\<close> is an \<open>int\<close>; the only \<^verbatim>\<open>int\<close>
  values of the program are bidder identities and slice indices, far from 64 bits.
\<close>

text \<open>\<^verbatim>\<open>const MaxDSP = 3\<close> and \<^verbatim>\<open>const serverAddr = "0:8080"\<close>.\<close>

definition MaxDSP :: int where
  "MaxDSP = 3"

definition serverAddr :: string where
  "serverAddr = ''0:8080''"

text \<open>\<^verbatim>\<open>type DspResult struct { DSPId int; BidPrice float64 }\<close>, \<^verbatim>\<open>type DspResults []DspResult\<close>.\<close>

record DspResult =
  DSPId :: int
  BidPrice :: real

type_synonym DspResults = "DspResult list"

text \<open>A run-time panic of the Go program: an index outside a slice, with the index.\<close>

datatype panic = IndexOutOfRange int

section \<open>Winner selection\<close>

subsection \<open>The \<^verbatim>\<open>sort.Interface\<close> of \<^verbatim>\<open>DspResults\<close>\<close>

text \<open>
  \<^verbatim>\<open>func (b DspResults) Len() int           { return len(b) }\<close>
  \<^verbatim>\<open>func (b DspResults) Swap(i, j int)      { b[i], b[j] = b[j], b[i] }\<close>
  \<^verbatim>\<open>func (b DspResults) Less(i, j int) bool { return b[i].BidPrice < b[j].BidPrice }\<close>
  The slice is mutated in place; the model returns the new slice. The sort below only
  calls \<open>Swap\<close> and \<open>Less\<close> with indices inside the slice.
\<close>

definition Len :: "DspResults \<Rightarrow> nat" where
  "Len b = length b"

definition Swap :: "DspResults \<Rightarrow> nat \<Rightarrow> nat \<Rightarrow> DspResults" where
  "Swap b i j = b[i := b ! j, j := b ! i]"

definition Less :: "DspResults \<Rightarrow> nat \<Rightarrow> nat \<Rightarrow> bool" where
  "Less b i j = (BidPrice (b ! i) < BidPrice (b ! j))"

subsection \<open>\<^verbatim>\<open>sort.Sort\<close> on a short slice\<close>

text \<open>
  \<^verbatim>\<open>sort.Sort\<close> belongs to the Go standard library. On a short slice (at most 12
  elements since Go 1.19, at most 6 before) it runs its insertion sort over the whole
  slice and nothing else:
  \<^verbatim>\<open>
  func insertionSort(data Interface, a, b int) {
      for i := a + 1; i < b; i++ {
          for j := i; j > a && data.Less(j, j-1); j-- {
              data.Swap(j, j-1)
          }
      }
  }\<close>
  An auction round collects at most \<open>MaxDSP = 3\<close> results, so this is the code that sorts
  them. \<open>insertionSort_inner\<close> is the inner loop from \<open>j\<close> downwards, \<open>insertionSort_outer\<close>
  the outer loop from \<open>i\<close> upwards.
\<close>

fun insertionSort_inner :: "DspResults \<Rightarrow> nat \<Rightarrow> nat \<Rightarrow> DspResults" where
  "insertionSort_inner d a j =
     (if j > a \<and> Less d j (j - 1) then insertionSort_inner (Swap d j (j - 1)) a (j - 1)
      else d)"

function insertionSort_outer :: "DspResults \<Rightarrow> nat \<Rightarrow> nat \<Rightarrow> nat \<Rightarrow> DspResults" where
  "insertionSort_outer d a b i =
     (if i < b then insertionSort_outer (insertionSort_inner d a i) a b (i + 1) else d)"
  by pat_completeness auto
termination
  by (relation "measure (\<lambda>(d, a, b, i). b - i)") auto

definition insertionSort :: "DspResults \<Rightarrow> nat \<Rightarrow> nat \<Rightarrow> DspResults" where
  "insertionSort d a b = insertionSort_outer d a b (a + 1)"

definition sort_Sort :: "DspResults \<Rightarrow> DspResults" where
  "sort_Sort d = insertionSort d 0 (Len d)"

subsection \<open>The end of \<^verbatim>\<open>HandlerAuction\<close>\<close>

text \<open>
  \<^verbatim>\<open>
  sort.Sort(dspResults)
  winner := dspResults[len(dspResults)-1]
  log.Printf("Highest bid %g from DSP %d", winner.BidPrice, winner.DSPId)\<close>
  Indexing a Go slice outside \<open>0 \<le> i < len\<close> panics; \<open>index\<close> is that read.
\<close>

definition index :: "DspResults \<Rightarrow> int \<Rightarrow> panic + DspResult" where
  "index b i = (if 0 \<le> i \<and> i < int (length b) then Inr (b ! nat i) else Inl (IndexOutOfRange i))"

definition selectWinner :: "DspResults \<Rightarrow> panic + DspResult" where
  "selectWinner dspResults =
     (let sorted_results = sort_Sort dspResults
      in index sorted_results (int (length sorted_results) - 1))"

text \<open>
  \<open>leader rs i\<close> follows the entries \<open>rs ! 0\<close>, ..., \<open>rs ! i\<close> in the order of the slice and
  keeps the one it holds unless the next offer is not lower: the entry the insertion
  sort has at position \<open>i\<close> once it has inserted \<open>rs ! i\<close> (lemma \<open>sort_Sort_last\<close>).
\<close>

fun leader :: "DspResults \<Rightarrow> nat \<Rightarrow> DspResult" where
  "leader rs 0 = rs ! 0"
| "leader rs (Suc i) =
     (if BidPrice (rs ! Suc i) < BidPrice (leader rs i) then leader rs i else rs ! Suc i)"

section \<open>Numbers and strings of the standard library\<close>

subsection \<open>Decimal digits\<close>

definition digit_char :: "nat \<Rightarrow> char" where
  "digit_char d = ''0123456789'' ! d"

definition is_digit :: "char \<Rightarrow> bool" where
  "is_digit c = (c \<in> set ''0123456789'')"

definition digit_val :: "char \<Rightarrow> nat" where
  "digit_val c = of_char c - of_char CHR ''0''"

text \<open>The decimal digits of a number, without leading zeros (\<open>''0''\<close> for zero).\<close>

fun utoa :: "nat \<Rightarrow> string" where
  "utoa n = (if n < 10 then [digit_char n] else utoa (n div 10) @ [digit_char (n mod 10)])"

text \<open>The last \<open>k\<close> decimal digits of a number, with leading zeros.\<close>

fun fixed_digits :: "nat \<Rightarrow> nat \<Rightarrow> string" where
  "fixed_digits 0 n = []"
| "fixed_digits (Suc k) n = fixed_digits k (n div 10) @ [digit_char (n mod 10)]"

text \<open>The number a string of decimal digits denotes, read from the left onto \<open>acc\<close>.\<close>

fun digits_val :: "nat \<Rightarrow> string \<Rightarrow> nat" where
  "digits_val acc [] = acc"
| "digits_val acc (c # cs) = digits_val (acc * 10 + digit_val c) cs"

subsection \<open>\<^verbatim>\<open>strconv.Itoa\<close>, \<^verbatim>\<open>strconv.FormatFloat(f, 'f', prec, 64)\<close>, \<^verbatim>\<open>math.Round\<close>\<close>

definition Itoa :: "int \<Rightarrow> string" where
  "Itoa i = (if i < 0 then CHR ''-'' # utoa (nat (- i)) else utoa (nat i))"

text \<open>
  \<^verbatim>\<open>FormatFloat\<close> with format \<^verbatim>\<open>'f'\<close> prints the decimal expansion of the number rounded to
  \<open>prec\<close> digits after the point, a tie going to the even last digit, and a minus sign
  for a negative number.
\<close>

definition round_half_even :: "real \<Rightarrow> int" where
  "round_half_even x =
     (let f = \<lfloor>x\<rfloor>; d = x - of_int f
      in if d < 1 / 2 then f else if 1 / 2 < d then f + 1 else if even f then f else f + 1)"

definition FormatFloat :: "real \<Rightarrow> nat \<Rightarrow> string" where
  "FormatFloat f prec =
     (let n = nat (round_half_even (\<bar>f\<bar> * 10 ^ prec))
      in (if f < 0 then [CHR ''-''] else []) @ utoa (n div 10 ^ prec) @
         (if prec = 0 then [] else CHR ''.'' # fixed_digits prec (n mod 10 ^ prec)))"

text \<open>\<^verbatim>\<open>math.Round\<close>: the nearest integer, a tie going away from zero.\<close>

definition math_Round :: "real \<Rightarrow> real" where
  "math_Round x = (if x < 0 then - of_int \<lfloor>- x + 1 / 2\<rfloor> else of_int \<lfloor>x + 1 / 2\<rfloor>)"

subsection \<open>\<^verbatim>\<open>strconv.ParseUint(s, 10, 32)\<close>\<close>

text \<open>
  \<^verbatim>\<open>
  if s == "" { return 0, syntaxError(fnParseUint, s) }
  ...
  var cutoff uint64 = maxUint64/10 + 1
  maxVal := uint64(1)<<uint(bitSize) - 1
  var n uint64
  for _, c := range []byte(s) {
      var d byte
      switch {
      case '0' <= c && c <= '9': d = c - '0'
      case 'a' <= lower(c) && lower(c) <= 'z': d = lower(c) - 'a' + 10
      default: return 0, syntaxError(fnParseUint, s0)
      }
      if d >= byte(base) { return 0, syntaxError(fnParseUint, s0) }
      if n >= cutoff { return maxVal, rangeError(fnParseUint, s0) }
      n *= uint64(base)
      n1 := n + uint64(d)
      if n1 < n || n1 > maxVal { return maxVal, rangeError(fnParseUint, s0) }
      n = n1
  }
  return n, nil\<close>
  With base 10 a letter is a digit of value at least 10 and a syntax error like any
  other character. \<open>n\<close> never exceeds \<open>maxVal = 2 ^ 32 - 1\<close>, so the \<^verbatim>\<open>uint64\<close> arithmetic
  never wraps and \<open>n\<close> is a \<open>nat\<close>. The model keeps the error and drops the number that
  accompanies it: the caller ignores it.
\<close>

datatype strconv_error = ErrSyntax | ErrRange

definition cutoff :: nat where
  "cutoff = (2 ^ 64 - 1) div 10 + 1"

definition maxVal :: nat where
  "maxVal = 2 ^ 32 - 1"

fun ParseUint_loop :: "nat \<Rightarrow> string \<Rightarrow> strconv_error + nat" where
  "ParseUint_loop n [] = Inr n"
| "ParseUint_loop n (c # cs) =
     (if \<not> is_digit c then Inl ErrSyntax
      else if n \<ge> cutoff then Inl ErrRange
      else let n1 = n * 10 + digit_val c
           in if n1 > maxVal then Inl ErrRange else ParseUint_loop n1 cs)"

definition ParseUint :: "string \<Rightarrow> strconv_error + nat" where
  "ParseUint s = (if s = [] then Inl ErrSyntax else ParseUint_loop 0 s)"

subsection \<open>\<^verbatim>\<open>strconv.ParseFloat(s, 64)\<close> on plain decimal literals\<close>

text \<open>
  \<^verbatim>\<open>ParseFloat\<close> belongs to the standard library; the handler below takes it as a
  parameter. \<open>ParseFloat_decimal\<close> is that function on the plain decimal literals, an
  optional sign, digits, and an optional point followed by digits, with a digit on at
  least one side of the point: the strings \<open>FormatFloat\<close> with format \<^verbatim>\<open>'f'\<close> writes. Its
  answer is the number the literal denotes (Go answers the nearest \<^verbatim>\<open>float64\<close>, and a
  range error beyond the largest one). Go answers a syntax error for every other
  string but those with an exponent, a hexadecimal mantissa or underscores and the
  words for infinity and NaN; this theory never applies \<open>ParseFloat_decimal\<close> to one of
  those.
\<close>

definition ParseFloat_decimal :: "string \<Rightarrow> strconv_error + real" where
  "ParseFloat_decimal s =
     (let neg = (s \<noteq> [] \<and> hd s = CHR ''-'');
          body = (if s \<noteq> [] \<and> (hd s = CHR ''-'' \<or> hd s = CHR ''+'') then tl s else s);
          ip = takeWhile is_digit body;
          rest = dropWhile is_digit body;
          sawdot = (rest \<noteq> [] \<and> hd rest = CHR ''.'');
          fp = (if sawdot then takeWhile is_digit (tl rest) else []);
          trailing = (if sawdot then dropWhile is_digit (tl rest) else rest);
          mantissa = real (digits_val 0 (ip @ fp)) / 10 ^ length fp
      in if trailing \<noteq> [] \<or> (ip = [] \<and> fp = []) then Inl ErrSyntax
         else Inr (if neg then - mantissa else mantissa))"

section \<open>The bid endpoint\<close>

text \<open>
  \<^verbatim>\<open>url.Values\<close> is a \<^verbatim>\<open>map[string][]string\<close>; a key that is absent reads as the empty
  slice. \<^verbatim>\<open>Get\<close> returns the first value of the key, or the empty string.
\<close>

type_synonym url_Values = "string \<Rightarrow> string list"

definition Get :: "url_Values \<Rightarrow> string \<Rightarrow> string" where
  "Get v key = (case v key of [] \<Rightarrow> [] | x # _ \<Rightarrow> x)"

text \<open>\<^verbatim>\<open>type Resp struct { Price float64 `json:"price"` }\<close>\<close>

record Resp =
  Price :: real

text \<open>
  What the handler writes: the JSON encoding of a \<open>Resp\<close> with status 200, or
  \<^verbatim>\<open>http.Error(w, msg, code)\<close>, a plain-text message with a status code.
\<close>

datatype response = Json Resp | HttpError nat string

text \<open>
  \<^verbatim>\<open>
  func HandlerBid(w http.ResponseWriter, r *http.Request) {
      vars := r.URL.Query()
      dsp, err := strconv.ParseUint(vars.Get("dsp"), 10, 32)
      if err != nil || dsp > MaxDSP || dsp < 1 {
          http.Error(w, "bad dsp parameter", http.StatusBadRequest)
          return
      }
      resp := Resp{}
      if floor, err := strconv.ParseFloat(vars.Get("p"), 64); err == nil {
          resp.Price = floor + rand.Float64()*100
          resp.Price = math.Round(resp.Price*100) / 100
      } else {
          http.Error(w, "bad p parameter", http.StatusBadRequest)
          return
      }
      ...
      body, err := json.Marshal(resp)
      ...
      w.Write(body)
  }\<close>
  \<open>floor'\<close> is the variable \<^verbatim>\<open>floor\<close> of the source (\<open>floor\<close> is a function of HOL), and
  \<open>rnd\<close> is the value \<^verbatim>\<open>rand.Float64()\<close> returns, a number in \<open>[0, 1)\<close>. Between the price
  and the response the handler sleeps \<^verbatim>\<open>10 * (rand.Intn(9) + 1)\<close> milliseconds; time is
  not part of the model. \<^verbatim>\<open>json.Marshal\<close> fails on an infinity or a NaN only, which the
  reals do not have, so the status 500 of the source has no branch here.
\<close>

definition HandlerBid :: "(string \<Rightarrow> strconv_error + real) \<Rightarrow> url_Values \<Rightarrow> real \<Rightarrow> response" where
  "HandlerBid ParseFloat vars rnd =
     (case ParseUint (Get vars ''dsp'') of
        Inl err \<Rightarrow> HttpError 400 ''bad dsp parameter''
      | Inr dsp \<Rightarrow>
          if int dsp > MaxDSP \<or> dsp < 1 then HttpError 400 ''bad dsp parameter''
          else (case ParseFloat (Get vars ''p'') of
                  Inr floor' \<Rightarrow> Json \<lparr>Price = math_Round ((floor' + rnd * 100) * 100) / 100\<rparr>
                | Inl err \<Rightarrow> HttpError 400 ''bad p parameter''))"

section \<open>The auction endpoint\<close>

text \<open>
  \<^verbatim>\<open>
  func makeBidURL(floor float64, dspId int) string {
      params := url.Values{}
      params.Add("p", strconv.FormatFloat(floor, 'f', 3, 64))
      params.Add("dsp", strconv.Itoa(dspId))
      addr := url.URL{Scheme: "http", Host: serverAddr, Path: "/bid", RawQuery: params.Encode()}
      return addr.String()
  }\<close>
  \<open>bidParams\<close> is \<^verbatim>\<open>params\<close>. \<^verbatim>\<open>Encode\<close> writes the keys in sorted order, \<^verbatim>\<open>dsp\<close> before \<^verbatim>\<open>p\<close>,
  and escapes neither digits nor \<^verbatim>\<open>-\<close> nor \<^verbatim>\<open>.\<close>.
\<close>

definition bidParams :: "real \<Rightarrow> int \<Rightarrow> url_Values" where
  "bidParams floor' dspId =
     ((\<lambda>key. [])(''p'' := [FormatFloat floor' 3]))(''dsp'' := [Itoa dspId])"

definition makeBidURL :: "real \<Rightarrow> int \<Rightarrow> string" where
  "makeBidURL floor' dspId =
     ''http'' @ ''://'' @ serverAddr @ ''/bid'' @ ''?'' @
     ''dsp='' @ Get (bidParams floor' dspId) ''dsp'' @ ''&'' @
     ''p='' @ Get (bidParams floor' dspId) ''p''"

text \<open>
  \<^verbatim>\<open>
  func askDSP(wg *sync.WaitGroup, client *http.Client, qDSPResults chan DspResult,
              floor float64, dspId int) error {
      defer wg.Done()
      bidURL := makeBidURL(floor, dspId)
      bidResp, err := client.Get(bidURL)
      if err != nil { return err }
      bidRespBytes, _ := ioutil.ReadAll(bidResp.Body)
      resp := Resp{}
      err = json.Unmarshal(bidRespBytes, &resp)
      if err != nil { return err }
      qDSPResults <- DspResult{DSPId: dspId, BidPrice: resp.Price}
      return nil
  }\<close>
  The network and the JSON decoder are parameters: \<open>client_Get\<close> answers a URL with an
  error (no connection, the 100 ms timeout) or with the bytes of the body, and
  \<open>json_Unmarshal\<close> answers the bytes with an error or with a \<open>Resp\<close>. A \<open>worker\<close> is what
  one call of \<^verbatim>\<open>askDSP\<close> does: the URL it requests, what it sends on the channel, what it
  returns.
\<close>

type_synonym error = string

record worker =
  requested :: string
  sent :: "DspResult option"
  returned :: "error option"

definition askDSP ::
  "(string \<Rightarrow> error + string) \<Rightarrow> (string \<Rightarrow> error + Resp) \<Rightarrow> real \<Rightarrow> int \<Rightarrow> worker" where
  "askDSP client_Get json_Unmarshal floor' dspId =
     (let bidURL = makeBidURL floor' dspId
      in case client_Get bidURL of
           Inl err \<Rightarrow> \<lparr>requested = bidURL, sent = None, returned = Some err\<rparr>
         | Inr bidRespBytes \<Rightarrow>
             (case json_Unmarshal bidRespBytes of
                Inl err \<Rightarrow> \<lparr>requested = bidURL, sent = None, returned = Some err\<rparr>
              | Inr resp \<Rightarrow>
                  \<lparr>requested = bidURL,
                   sent = Some \<lparr>DSPId = dspId, BidPrice = Price resp\<rparr>,
                   returned = None\<rparr>))"

text \<open>
  \<^verbatim>\<open>
  func HandlerAuction(w http.ResponseWriter, r *http.Request) {
      client := http.Client{Timeout: 100 * time.Millisecond}
      floor := rand.Float64() * 10
      dspResults := DspResults{}
      queue := make(chan DspResult, 1)
      allDone := make(chan struct{}, 1)
      go func() {
          for dspRes := range queue { dspResults = append(dspResults, dspRes) }
          allDone <- struct{}{}
      }()
      wgDSP := sync.WaitGroup{}
      for dspId := 1; dspId < MaxDSP+1; dspId++ {
          wgDSP.Add(1)
          go func(innerDSPId int) {
              err := askDSP(&wgDSP, &client, queue, floor, innerDSPId)
              if err != nil { log.Printf(...) }
          }(dspId)
      }
      wgDSP.Wait()
      close(queue)
      <-allDone
      ...
      sort.Sort(dspResults)
      winner := dspResults[len(dspResults)-1]
      log.Printf("Highest bid %g from DSP %d", winner.BidPrice, winner.DSPId)
  }\<close>
  The goroutines run concurrently. What the handler computes depends on their
  interleaving only through the order in which their sends reach the channel; that
  order is the parameter \<open>arrival\<close>, the bidder identities in the order in which their
  workers reach the send (or return without one), a permutation of the identities
  \<open>[1..MaxDSP]\<close> that the loop launches. The handler closes the channel after every worker
  has returned, and reads \<^verbatim>\<open>dspResults\<close> after the collecting goroutine has drained the
  channel, so the collector sees every send, in that order. \<open>collect\<close> is its loop.
\<close>

definition collect :: "DspResult list \<Rightarrow> DspResults" where
  "collect q = foldl (\<lambda>dspResults dspRes. dspResults @ [dspRes]) [] q"

record auction =
  floorPrice :: real
  workers :: "worker list"
  queue :: "DspResult list"
  collected :: DspResults
  winner :: "panic + DspResult"

definition HandlerAuction ::
  "(string \<Rightarrow> error + string) \<Rightarrow> (string \<Rightarrow> error + Resp) \<Rightarrow> real \<Rightarrow> int list \<Rightarrow> auction" where
  "HandlerAuction client_Get json_Unmarshal rnd arrival =
     (let floor' = rnd * 10;
          q = List.map_filter (\<lambda>dspId. sent (askDSP client_Get json_Unmarshal floor' dspId)) arrival;
          dspResults = collect q
      in \<lparr>floorPrice = floor',
          workers = map (askDSP client_Get json_Unmarshal floor') [1..MaxDSP],
          queue = q,
          collected = dspResults,
          winner = selectWinner dspResults\<rparr>)"

text \<open>An arrival order of a round: the launched identities, each once, in some order.\<close>

definition arrival_order :: "int list \<Rightarrow> bool" where
  "arrival_order arrival = (mset arrival = mset [1..MaxDSP])"

section \<open>An example round\<close>

text \<open>
  A network and a decoder for the examples below: the call for bidder 2 times out, the
  bodies of bidders 1 and 3 decode to the prices 10.2 and 12.1, and nothing else decodes.
\<close>

definition example_Get :: "string \<Rightarrow> error + string" where
  "example_Get url =
     (if url = ''http://0:8080/bid?dsp=1&p=5.000'' then Inr ''10.2''
      else if url = ''http://0:8080/bid?dsp=3&p=5.000'' then Inr ''12.1''
      else Inl ''context deadline exceeded'')"

definition example_Unmarshal :: "string \<Rightarrow> error + Resp" where
  "example_Unmarshal body =
     (if body = ''10.2'' then Inr \<lparr>Price = 102 / 10\<rparr>
      else if body = ''12.1'' then Inr \<lparr>Price = 121 / 10\<rparr>
      else Inl ''invalid character'')"

section \<open>The insertion sort and the winner\<close>

declare insertionSort_inner.simps [simp del]
declare insertionSort_outer.simps [simp del]

lemma insertionSort_inner_step:
  "a < j \<Longrightarrow> Less d j (j - 1) \<Longrightarrow>
   insertionSort_inner d a j = insertionSort_inner (Swap d j (j - 1)) a (j - 1)"
  by (subst insertionSort_inner.simps) simp

lemma insertionSort_inner_stop:
  "\<not> (a < j \<and> Less d j (j - 1)) \<Longrightarrow> insertionSort_inner d a j = d"
  by (subst insertionSort_inner.simps) auto

lemma length_Swap: "length (Swap d i j) = length d"
  by (simp add: Swap_def)

lemma Swap_nth_above: "j < k \<Longrightarrow> Swap d j (j - 1) ! k = d ! k"
  by (simp add: Swap_def)

lemma Swap_nth_upper: "0 < j \<Longrightarrow> j < length d \<Longrightarrow> Swap d j (j - 1) ! j = d ! (j - 1)"
  by (simp add: Swap_def nth_list_update)

lemma mset_Swap: "i < length d \<Longrightarrow> j < length d \<Longrightarrow> mset (Swap d i j) = mset d"
  by (simp add: Swap_def mset_swap)

lemma length_insertionSort_inner: "length (insertionSort_inner d a j) = length d"
  by (induction d a j rule: insertionSort_inner.induct)
     (subst insertionSort_inner.simps, simp add: length_Swap)

lemma mset_insertionSort_inner:
  "j < length d \<Longrightarrow> mset (insertionSort_inner d a j) = mset d"
proof (induction d a j rule: insertionSort_inner.induct)
  case (1 d a j)
  show ?case
  proof (cases "a < j \<and> Less d j (j - 1)")
    case True
    then have "mset (insertionSort_inner (Swap d j (j - 1)) a (j - 1)) = mset (Swap d j (j - 1))"
      using 1 by (simp add: length_Swap)
    then show ?thesis
      using True 1(2) by (simp add: insertionSort_inner_step mset_Swap del: One_nat_def)
  next
    case False
    show ?thesis using insertionSort_inner_stop [OF False] by simp
  qed
qed

lemma insertionSort_inner_above: "j < k \<Longrightarrow> insertionSort_inner d a j ! k = d ! k"
proof (induction d a j rule: insertionSort_inner.induct)
  case (1 d a j)
  show ?case
  proof (cases "a < j \<and> Less d j (j - 1)")
    case True
    have "insertionSort_inner (Swap d j (j - 1)) a (j - 1) ! k = Swap d j (j - 1) ! k"
      using 1 True by simp
    then show ?thesis
      using True 1(2) by (simp add: insertionSort_inner_step Swap_nth_above del: One_nat_def)
  next
    case False
    show ?thesis using insertionSort_inner_stop [OF False] by metis
  qed
qed

lemma insertionSort_inner_at:
  assumes "j < length d"
  shows "insertionSort_inner d a j ! j =
         (if a < j \<and> Less d j (j - 1) then d ! (j - 1) else d ! j)"
proof (cases "a < j \<and> Less d j (j - 1)")
  case True
  then have "0 < j" by simp
  have "insertionSort_inner (Swap d j (j - 1)) a (j - 1) ! j = Swap d j (j - 1) ! j"
    using True by (simp add: insertionSort_inner_above)
  then show ?thesis
    using True assms \<open>0 < j\<close>
    by (simp add: insertionSort_inner_step Swap_nth_upper del: One_nat_def)
next
  case False
  show ?thesis using insertionSort_inner_stop [OF False] False by metis
qed

lemma length_insertionSort_outer: "length (insertionSort_outer d a b i) = length d"
  by (induction d a b i rule: insertionSort_outer.induct)
     (subst insertionSort_outer.simps, simp add: length_insertionSort_inner)

lemma mset_insertionSort_outer:
  "b \<le> length d \<Longrightarrow> mset (insertionSort_outer d a b i) = mset d"
proof (induction d a b i rule: insertionSort_outer.induct)
  case (1 d a b i)
  show ?case
  proof (cases "i < b")
    case True
    then have "mset (insertionSort_outer (insertionSort_inner d a i) a b (i + 1)) = mset d"
      using 1 by (simp add: length_insertionSort_inner mset_insertionSort_inner)
    then show ?thesis using True by (subst insertionSort_outer.simps) simp
  next
    case False
    then show ?thesis by (subst insertionSort_outer.simps) simp
  qed
qed

lemma insertionSort_outer_last:
  assumes "length d = n" "0 < i" "i \<le> n" "d ! (i - 1) = leader rs (i - 1)"
    "\<forall>k. i \<le> k \<and> k < n \<longrightarrow> d ! k = rs ! k"
  shows "insertionSort_outer d 0 n i ! (n - 1) = leader rs (n - 1)"
  using assms
proof (induction d "0::nat" n i rule: insertionSort_outer.induct)
  case (1 d b i)
  show ?case
  proof (cases "i < b")
    case True
    let ?d = "insertionSort_inner d 0 i"
    obtain m where m: "i = Suc m" using 1(3) by (cases i) auto
    have a: "length ?d = b" using 1(2) by (simp add: length_insertionSort_inner)
    have "?d ! i = (if Less d i (i - 1) then d ! (i - 1) else d ! i)"
      using True 1(2,3) by (simp add: insertionSort_inner_at)
    then have b: "?d ! (i + 1 - 1) = leader rs (i + 1 - 1)"
      using 1(5,6) True m by (simp add: Less_def)
    have c: "\<forall>k. i + 1 \<le> k \<and> k < b \<longrightarrow> ?d ! k = rs ! k"
      using 1(6) by (simp add: insertionSort_inner_above)
    have "insertionSort_outer ?d 0 b (i + 1) ! (b - 1) = leader rs (b - 1)"
      using 1(1) [OF True a _ _ b c] True by simp
    then show ?thesis using True by (subst insertionSort_outer.simps) simp
  next
    case False
    then have "i = b" using 1(4) by simp
    then show ?thesis using 1(5) False by (subst insertionSort_outer.simps) simp
  qed
qed

lemma length_sort_Sort: "length (sort_Sort d) = length d"
  by (simp add: sort_Sort_def insertionSort_def length_insertionSort_outer)

lemma mset_sort_Sort: "mset (sort_Sort d) = mset d"
  by (simp add: sort_Sort_def insertionSort_def Len_def mset_insertionSort_outer)

lemma sort_Sort_Nil_iff: "sort_Sort d = [] \<longleftrightarrow> d = []"
  using length_sort_Sort [of d] by (simp flip: length_0_conv)

lemma sort_Sort_last:
  "rs \<noteq> [] \<Longrightarrow> sort_Sort rs ! (length rs - 1) = leader rs (length rs - 1)"
  unfolding sort_Sort_def insertionSort_def Len_def
  by (rule insertionSort_outer_last) (auto simp: Suc_le_eq)

lemma selectWinner_leader:
  assumes "rs \<noteq> []"
  shows "selectWinner rs = Inr (leader rs (length rs - 1))"
proof -
  have "0 < length rs" using assms by simp
  then have "nat (int (length rs) - 1) = length rs - 1" by simp
  then show ?thesis
    using assms sort_Sort_last [OF assms]
    by (simp add: selectWinner_def index_def length_sort_Sort sort_Sort_Nil_iff Let_def
        del: One_nat_def)
qed

lemma selectWinner_Nil: "selectWinner [] = Inl (IndexOutOfRange (- 1))"
  by (simp add: selectWinner_def index_def sort_Sort_Nil_iff)

lemma leader_index:
  "m < length rs \<Longrightarrow>
   \<exists>j\<le>m. leader rs m = rs ! j \<and>
     (\<forall>k\<le>m. BidPrice (rs ! k) \<le> BidPrice (rs ! j)) \<and>
     (\<forall>k. j < k \<and> k \<le> m \<longrightarrow> BidPrice (rs ! k) < BidPrice (rs ! j))"
proof (induction m)
  case 0
  then show ?case by simp
next
  case (Suc m)
  then obtain j where j: "j \<le> m" "leader rs m = rs ! j"
    "\<forall>k\<le>m. BidPrice (rs ! k) \<le> BidPrice (rs ! j)"
    "\<forall>k. j < k \<and> k \<le> m \<longrightarrow> BidPrice (rs ! k) < BidPrice (rs ! j)"
    by auto
  show ?case
  proof (cases "BidPrice (rs ! Suc m) < BidPrice (leader rs m)")
    case True
    have "\<forall>k\<le>Suc m. BidPrice (rs ! k) \<le> BidPrice (rs ! j)"
      using j(2,3) True by (auto simp: le_Suc_eq)
    moreover have "\<forall>k. j < k \<and> k \<le> Suc m \<longrightarrow> BidPrice (rs ! k) < BidPrice (rs ! j)"
      using j(2,4) True by (auto simp: le_Suc_eq)
    ultimately show ?thesis using j(1,2) True by (intro exI [of _ j]) simp
  next
    case False
    have "\<forall>k\<le>Suc m. BidPrice (rs ! k) \<le> BidPrice (rs ! Suc m)"
    proof (intro allI impI)
      fix k assume "k \<le> Suc m"
      show "BidPrice (rs ! k) \<le> BidPrice (rs ! Suc m)"
      proof (cases "k = Suc m")
        case True then show ?thesis by simp
      next
        case False
        with \<open>k \<le> Suc m\<close> have "k \<le> m" by simp
        then have "BidPrice (rs ! k) \<le> BidPrice (rs ! j)" using j(3) by simp
        then show ?thesis using \<open>\<not> BidPrice (rs ! Suc m) < BidPrice (leader rs m)\<close> j(2) by simp
      qed
    qed
    then show ?thesis using False by (intro exI [of _ "Suc m"]) simp
  qed
qed

lemma selectWinner_index:
  assumes "rs \<noteq> []"
  shows "\<exists>j<length rs. selectWinner rs = Inr (rs ! j) \<and>
     (\<forall>k<length rs. BidPrice (rs ! k) \<le> BidPrice (rs ! j)) \<and>
     (\<forall>k. j < k \<and> k < length rs \<longrightarrow> BidPrice (rs ! k) < BidPrice (rs ! j))"
proof -
  have n: "length rs - 1 < length rs" using assms by simp
  from leader_index [OF n] obtain j where j: "j \<le> length rs - 1"
    "leader rs (length rs - 1) = rs ! j"
    "\<forall>k\<le>length rs - 1. BidPrice (rs ! k) \<le> BidPrice (rs ! j)"
    "\<forall>k. j < k \<and> k \<le> length rs - 1 \<longrightarrow> BidPrice (rs ! k) < BidPrice (rs ! j)"
    by blast
  have "j < length rs" using j(1) n by simp
  moreover have "selectWinner rs = Inr (rs ! j)"
    using selectWinner_leader [OF assms] j(2) by simp
  moreover have "\<forall>k<length rs. BidPrice (rs ! k) \<le> BidPrice (rs ! j)"
    using j(3) by (auto simp del: One_nat_def)
  moreover have "\<forall>k. j < k \<and> k < length rs \<longrightarrow> BidPrice (rs ! k) < BidPrice (rs ! j)"
    using j(4) by (auto simp del: One_nat_def)
  ultimately show ?thesis by blast
qed

lemma selectWinner_maximum:
  assumes "rs \<noteq> []"
  shows "\<exists>w. selectWinner rs = Inr w \<and> w \<in> set rs \<and> BidPrice w = Max (BidPrice ` set rs)"
proof -
  from selectWinner_index [OF assms] obtain j where j: "j < length rs"
    "selectWinner rs = Inr (rs ! j)" "\<forall>k<length rs. BidPrice (rs ! k) \<le> BidPrice (rs ! j)"
    by blast
  have in_set: "rs ! j \<in> set rs" using j(1) by simp
  have "\<forall>p\<in>BidPrice ` set rs. p \<le> BidPrice (rs ! j)"
    using j(3) by (auto simp: in_set_conv_nth)
  then have "Max (BidPrice ` set rs) = BidPrice (rs ! j)"
    using in_set by (intro Max_eqI) auto
  then show ?thesis using j(2) in_set by auto
qed

lemmas selectWinner_eval =
  selectWinner_def sort_Sort_def insertionSort_def insertionSort_outer.simps
  insertionSort_inner.simps Len_def Less_def Swap_def index_def

lemma collect_eq: "collect q = q"
proof -
  have "foldl (\<lambda>dspResults dspRes. dspResults @ [dspRes]) acc q = acc @ q" for acc :: DspResults
    by (induction q arbitrary: acc) simp_all
  then show ?thesis by (simp add: collect_def)
qed

lemma winner_HandlerAuction:
  "winner (HandlerAuction G U rnd arrival) = selectWinner (collected (HandlerAuction G U rnd arrival))"
  by (simp add: HandlerAuction_def Let_def)

subsection \<open>The insertion sort sorts\<close>

text \<open>
  The result of \<open>sort_Sort\<close> is a permutation of the slice (\<open>mset_sort_Sort\<close>) in
  non-decreasing order of \<open>BidPrice\<close> (\<open>sorted_sort_Sort\<close>). While the inner loop moves
  the entry at \<open>j\<close> down, the rest of the segment up to \<open>m\<close> is in order and every entry
  to the right of \<open>j\<close> has a higher offer than the entry at \<open>j\<close>.
\<close>

lemma Swap_nth:
  "0 < j \<Longrightarrow> j < length d \<Longrightarrow> k < length d \<Longrightarrow>
   Swap d j (j - 1) ! k = (if k = j then d ! (j - 1) else if k = j - 1 then d ! j else d ! k)"
  by (auto simp: Swap_def nth_list_update)

lemma insertionSort_inner_sorted:
  assumes "m < length d" and "j \<le> m"
    and "\<forall>p q. a \<le> p \<and> p < q \<and> q \<le> m \<and> p \<noteq> j \<and> q \<noteq> j \<longrightarrow>
           BidPrice (d ! p) \<le> BidPrice (d ! q)"
    and "\<forall>q. j < q \<and> q \<le> m \<longrightarrow> BidPrice (d ! j) < BidPrice (d ! q)"
  shows "\<forall>p q. a \<le> p \<and> p < q \<and> q \<le> m \<longrightarrow>
           BidPrice (insertionSort_inner d a j ! p) \<le> BidPrice (insertionSort_inner d a j ! q)"
  using assms
proof (induction d a j rule: insertionSort_inner.induct)
  case (1 d a j)
  show ?case
  proof (cases "a < j \<and> Less d j (j - 1)")
    case True
    let ?d = "Swap d j (j - 1)"
    have j: "0 < j" "j < length d" using True 1(2,3) by simp_all
    have nth: "\<And>k. k \<le> m \<Longrightarrow> ?d ! k =
        (if k = j then d ! (j - 1) else if k = j - 1 then d ! j else d ! k)"
      using j 1(2) by (intro Swap_nth) simp_all
    have less: "BidPrice (d ! j) < BidPrice (d ! (j - 1))" using True by (simp add: Less_def)
    have a: "m < length ?d" using 1(2) by (simp add: length_Swap)
    have b: "j - 1 \<le> m" using 1(3) by simp
    have c: "\<forall>p q. a \<le> p \<and> p < q \<and> q \<le> m \<and> p \<noteq> j - 1 \<and> q \<noteq> j - 1 \<longrightarrow>
        BidPrice (?d ! p) \<le> BidPrice (?d ! q)"
    proof (intro allI impI)
      fix p q
      assume pq: "a \<le> p \<and> p < q \<and> q \<le> m \<and> p \<noteq> j - 1 \<and> q \<noteq> j - 1"
      then have pm: "p \<le> m" by simp
      consider "q = j" | "p = j" | "p \<noteq> j" "q \<noteq> j" by blast
      then show "BidPrice (?d ! p) \<le> BidPrice (?d ! q)"
      proof cases
        case 1
        then have "a \<le> p \<and> p < j - 1 \<and> j - 1 \<le> m \<and> p \<noteq> j \<and> j - 1 \<noteq> j"
          using pq j(1) \<open>j \<le> m\<close> by arith
        then have "BidPrice (d ! p) \<le> BidPrice (d ! (j - 1))"
          using "1.prems"(3) by blast
        then show ?thesis using nth [of p] nth [of q] pq pm 1 by simp
      next
        case 2
        then have "a \<le> j - 1 \<and> j - 1 < q \<and> q \<le> m \<and> j - 1 \<noteq> j \<and> q \<noteq> j"
          using pq True by arith
        then have "BidPrice (d ! (j - 1)) \<le> BidPrice (d ! q)"
          using "1.prems"(3) by blast
        then show ?thesis using nth [of p] nth [of q] pq pm 2 by simp
      next
        case 3
        then have "BidPrice (d ! p) \<le> BidPrice (d ! q)" using "1.prems"(3) pq by simp
        then show ?thesis using nth [of p] nth [of q] pq pm 3 by simp
      qed
    qed
    have d: "\<forall>q. j - 1 < q \<and> q \<le> m \<longrightarrow> BidPrice (?d ! (j - 1)) < BidPrice (?d ! q)"
    proof (intro allI impI)
      fix q
      assume q: "j - 1 < q \<and> q \<le> m"
      show "BidPrice (?d ! (j - 1)) < BidPrice (?d ! q)"
      proof (cases "q = j")
        case True
        then show ?thesis using nth [of q] nth [of "j - 1"] q j(1) less by simp
      next
        case False
        then have "j < q" using q by arith
        then have "BidPrice (d ! j) < BidPrice (d ! q)" using "1.prems"(4) q by simp
        then show ?thesis using nth [of q] nth [of "j - 1"] q j(1) False \<open>j < q\<close> by simp
      qed
    qed
    have "\<forall>p q. a \<le> p \<and> p < q \<and> q \<le> m \<longrightarrow>
        BidPrice (insertionSort_inner ?d a (j - 1) ! p)
        \<le> BidPrice (insertionSort_inner ?d a (j - 1) ! q)"
      using True a b c d by (intro "1.IH") simp_all
    then show ?thesis using True by (simp add: insertionSort_inner_step del: One_nat_def)
  next
    case False
    have "BidPrice (d ! p) \<le> BidPrice (d ! q)" if pq: "a \<le> p \<and> p < q \<and> q \<le> m" for p q
    proof -
      consider "p = j" | "q = j" | "p \<noteq> j" "q \<noteq> j" by blast
      then show ?thesis
      proof cases
        case 1
        then show ?thesis using "1.prems"(4) pq by (simp add: less_imp_le)
      next
        case 2
        then have aj: "a < j" using pq by simp
        then have le: "BidPrice (d ! (j - 1)) \<le> BidPrice (d ! j)"
          using False by (simp add: Less_def)
        show ?thesis
        proof (cases "p = j - 1")
          case True
          then show ?thesis using le 2 by simp
        next
          case False
          then have "a \<le> p \<and> p < j - 1 \<and> j - 1 \<le> m \<and> p \<noteq> j \<and> j - 1 \<noteq> j"
            using pq 2 aj \<open>j \<le> m\<close> by arith
          then have "BidPrice (d ! p) \<le> BidPrice (d ! (j - 1))"
            using "1.prems"(3) by blast
          then show ?thesis using le 2 by simp
        qed
      next
        case 3
        then show ?thesis using "1.prems"(3) pq by simp
      qed
    qed
    then show ?thesis using insertionSort_inner_stop [OF False] by simp
  qed
qed

lemma insertionSort_outer_sorted:
  assumes "length d = n" and "0 < i" and "i \<le> n"
    and "\<forall>p q. p < q \<and> q < i \<longrightarrow> BidPrice (d ! p) \<le> BidPrice (d ! q)"
  shows "\<forall>p q. p < q \<and> q < n \<longrightarrow>
           BidPrice (insertionSort_outer d 0 n i ! p) \<le> BidPrice (insertionSort_outer d 0 n i ! q)"
  using assms
proof (induction d "0::nat" n i rule: insertionSort_outer.induct)
  case (1 d b i)
  show ?case
  proof (cases "i < b")
    case True
    let ?d = "insertionSort_inner d 0 i"
    have len: "length ?d = b" using 1(2) by (simp add: length_insertionSort_inner)
    have "\<forall>p q. 0 \<le> p \<and> p < q \<and> q \<le> i \<longrightarrow> BidPrice (?d ! p) \<le> BidPrice (?d ! q)"
      using True 1(2,5) by (intro insertionSort_inner_sorted) simp_all
    then have pre: "\<forall>p q. p < q \<and> q < i + 1 \<longrightarrow> BidPrice (?d ! p) \<le> BidPrice (?d ! q)"
      by simp
    have "\<forall>p q. p < q \<and> q < b \<longrightarrow>
        BidPrice (insertionSort_outer ?d 0 b (i + 1) ! p)
        \<le> BidPrice (insertionSort_outer ?d 0 b (i + 1) ! q)"
      using True len pre by (intro "1.hyps") simp_all
    moreover have "insertionSort_outer d 0 b i = insertionSort_outer ?d 0 b (i + 1)"
      using True by (subst insertionSort_outer.simps) simp
    ultimately show ?thesis by simp
  next
    case False
    then have "i = b" using 1(4) by simp
    moreover have "insertionSort_outer d 0 b i = d"
      using False by (subst insertionSort_outer.simps) simp
    ultimately show ?thesis using 1(5) by simp
  qed
qed

lemma sorted_sort_Sort: "sorted (map BidPrice (sort_Sort d))"
proof (cases "d = []")
  case True
  have "sort_Sort [] = []" by (simp add: sort_Sort_Nil_iff)
  then show ?thesis using True by simp
next
  case False
  have "\<forall>p q. p < q \<and> q < length d \<longrightarrow>
      BidPrice (sort_Sort d ! p) \<le> BidPrice (sort_Sort d ! q)"
    unfolding sort_Sort_def insertionSort_def Len_def
    using False by (intro insertionSort_outer_sorted) (simp_all add: Suc_le_eq)
  then show ?thesis
    by (simp add: sorted_iff_nth_mono_less length_sort_Sort)
qed

section \<open>Winner selection: the claims\<close>

text \<open>
  C1. The claim: when no bidder delivered a result, the auction reports \<open>NoRespondents\<close>
  and never reads the empty collection. The code has no such outcome and no check:
  with nothing collected, \<^verbatim>\<open>dspResults[len(dspResults)-1]\<close> reads index \<open>-1\<close> of the empty
  slice and the handler panics.
\<close>

theorem no_respondents_panics:
  "collected (HandlerAuction client_Get json_Unmarshal rnd arrival) = [] \<Longrightarrow>
   winner (HandlerAuction client_Get json_Unmarshal rnd arrival) = Inl (IndexOutOfRange (- 1))"
  by (simp add: winner_HandlerAuction selectWinner_Nil)

theorem no_respondents_panics_witness:
  "collected (HandlerAuction (\<lambda>url. Inr ''Service Unavailable'') (\<lambda>body. Inl ''invalid character'')
     0 [1, 2, 3]) = [] \<and>
   winner (HandlerAuction (\<lambda>url. Inr ''Service Unavailable'') (\<lambda>body. Inl ''invalid character'')
     0 [1, 2, 3]) = Inl (IndexOutOfRange (- 1))"
proof -
  have empty: "collected (HandlerAuction (\<lambda>url. Inr ''Service Unavailable'')
      (\<lambda>body. Inl ''invalid character'') 0 [1, 2, 3]) = []"
    by (simp add: HandlerAuction_def askDSP_def collect_eq List.map_filter_def Let_def)
  show ?thesis using empty no_respondents_panics [OF empty] by simp
qed

text \<open>
  C2. For every non-empty sequence of collected results, the winner is one of its
  entries and its offer is the maximum of the offers collected.
\<close>

theorem winner_has_maximum_offer:
  "dspResults \<noteq> [] \<Longrightarrow>
   \<exists>w. selectWinner dspResults = Inr w \<and> w \<in> set dspResults \<and>
       BidPrice w = Max (BidPrice ` set dspResults)"
  by (rule selectWinner_maximum)

theorem winner_has_maximum_offer_witness:
  "[\<lparr>DSPId = 1, BidPrice = 102 / 10\<rparr>, \<lparr>DSPId = 2, BidPrice = 157 / 10\<rparr>,
    \<lparr>DSPId = 3, BidPrice = 121 / 10\<rparr>] \<noteq> [] \<and>
   (\<exists>w. selectWinner [\<lparr>DSPId = 1, BidPrice = 102 / 10\<rparr>, \<lparr>DSPId = 2, BidPrice = 157 / 10\<rparr>,
          \<lparr>DSPId = 3, BidPrice = 121 / 10\<rparr>] = Inr w \<and>
        w \<in> set [\<lparr>DSPId = 1, BidPrice = 102 / 10\<rparr>, \<lparr>DSPId = 2, BidPrice = 157 / 10\<rparr>,
          \<lparr>DSPId = 3, BidPrice = 121 / 10\<rparr>] \<and>
        BidPrice w = Max (BidPrice ` set [\<lparr>DSPId = 1, BidPrice = 102 / 10\<rparr>,
          \<lparr>DSPId = 2, BidPrice = 157 / 10\<rparr>, \<lparr>DSPId = 3, BidPrice = 121 / 10\<rparr>])) \<and>
   Max (BidPrice ` set [\<lparr>DSPId = 1, BidPrice = 102 / 10\<rparr>, \<lparr>DSPId = 2, BidPrice = 157 / 10\<rparr>,
          \<lparr>DSPId = 3, BidPrice = 121 / 10\<rparr>]) = 157 / 10"
proof -
  let ?rs = "[\<lparr>DSPId = 1, BidPrice = 102 / 10\<rparr>, \<lparr>DSPId = 2, BidPrice = 157 / 10\<rparr>,
    \<lparr>DSPId = 3, BidPrice = 121 / 10\<rparr>]"
  have ne: "?rs \<noteq> []" by simp
  have "Max (BidPrice ` set ?rs) = 157 / 10" by simp
  then show ?thesis using ne winner_has_maximum_offer [OF ne] by blast
qed

text \<open>
  C3. The claim: among entries that share the maximum offer the winner is the one with
  the lowest bidder identity, whatever the arrival order. \<open>Less\<close> compares offers only,
  and the insertion sort never moves an entry past another of the same offer, so the
  entry that ends last is the one that arrived last among those with the maximum
  offer: when bidder 1 and then bidder 2 arrive with 20.00, bidder 2 wins.
\<close>

theorem tie_goes_to_bidder_2_counterexample:
  "selectWinner [\<lparr>DSPId = 1, BidPrice = 20\<rparr>, \<lparr>DSPId = 2, BidPrice = 20\<rparr>] =
   Inr \<lparr>DSPId = 2, BidPrice = 20\<rparr>"
  by (simp add: selectWinner_eval)

text \<open>
  C3, as the code has it: for the sequences a round can collect (at most \<open>MaxDSP\<close>
  entries, which \<^verbatim>\<open>sort.Sort\<close> sorts by insertion alone), the winner is the entry at the
  last position \<open>j\<close> whose offer is the maximum: no offer is higher, and every offer
  that arrived after it is lower.
\<close>

theorem winner_is_last_arrived_maximum:
  "dspResults \<noteq> [] \<Longrightarrow> length dspResults \<le> nat MaxDSP \<Longrightarrow>
   \<exists>j<length dspResults. selectWinner dspResults = Inr (dspResults ! j) \<and>
     (\<forall>k<length dspResults. BidPrice (dspResults ! k) \<le> BidPrice (dspResults ! j)) \<and>
     (\<forall>k. j < k \<and> k < length dspResults \<longrightarrow>
        BidPrice (dspResults ! k) < BidPrice (dspResults ! j))"
  by (rule selectWinner_index)

theorem winner_is_last_arrived_maximum_witness:
  "[\<lparr>DSPId = 2, BidPrice = 20\<rparr>, \<lparr>DSPId = 1, BidPrice = 20\<rparr>, \<lparr>DSPId = 3, BidPrice = 12\<rparr>] \<noteq> [] \<and>
   length [\<lparr>DSPId = 2, BidPrice = 20\<rparr>, \<lparr>DSPId = 1, BidPrice = 20\<rparr>, \<lparr>DSPId = 3, BidPrice = 12\<rparr>]
     \<le> nat MaxDSP \<and>
   (\<exists>j<length [\<lparr>DSPId = 2, BidPrice = 20\<rparr>, \<lparr>DSPId = 1, BidPrice = 20\<rparr>, \<lparr>DSPId = 3, BidPrice = 12\<rparr>].
      selectWinner [\<lparr>DSPId = 2, BidPrice = 20\<rparr>, \<lparr>DSPId = 1, BidPrice = 20\<rparr>, \<lparr>DSPId = 3, BidPrice = 12\<rparr>] =
        Inr ([\<lparr>DSPId = 2, BidPrice = 20\<rparr>, \<lparr>DSPId = 1, BidPrice = 20\<rparr>, \<lparr>DSPId = 3, BidPrice = 12\<rparr>] ! j) \<and>
      (\<forall>k<length [\<lparr>DSPId = 2, BidPrice = 20\<rparr>, \<lparr>DSPId = 1, BidPrice = 20\<rparr>, \<lparr>DSPId = 3, BidPrice = 12\<rparr>].
         BidPrice ([\<lparr>DSPId = 2, BidPrice = 20\<rparr>, \<lparr>DSPId = 1, BidPrice = 20\<rparr>, \<lparr>DSPId = 3, BidPrice = 12\<rparr>] ! k)
         \<le> BidPrice ([\<lparr>DSPId = 2, BidPrice = 20\<rparr>, \<lparr>DSPId = 1, BidPrice = 20\<rparr>, \<lparr>DSPId = 3, BidPrice = 12\<rparr>] ! j)) \<and>
      (\<forall>k. j < k \<and> k < length [\<lparr>DSPId = 2, BidPrice = 20\<rparr>, \<lparr>DSPId = 1, BidPrice = 20\<rparr>, \<lparr>DSPId = 3, BidPrice = 12\<rparr>] \<longrightarrow>
         BidPrice ([\<lparr>DSPId = 2, BidPrice = 20\<rparr>, \<lparr>DSPId = 1, BidPrice = 20\<rparr>, \<lparr>DSPId = 3, BidPrice = 12\<rparr>] ! k)
         < BidPrice ([\<lparr>DSPId = 2, BidPrice = 20\<rparr>, \<lparr>DSPId = 1, BidPrice = 20\<rparr>, \<lparr>DSPId = 3, BidPrice = 12\<rparr>] ! j)))"
proof -
  let ?rs = "[\<lparr>DSPId = 2, BidPrice = 20\<rparr>, \<lparr>DSPId = 1, BidPrice = 20\<rparr>, \<lparr>DSPId = 3, BidPrice = 12\<rparr>]"
  have ne: "?rs \<noteq> []" by simp
  have len: "length ?rs \<le> nat MaxDSP" by (simp add: MaxDSP_def)
  show ?thesis using ne len winner_is_last_arrived_maximum [OF ne len] by blast
qed

text \<open>
  C4. The claim: every permutation of the collected results gives the same winner. With
  a tie for the maximum the winner follows the arrival order: the same three results
  give bidder 2 in one order and bidder 1 in the other.
\<close>

theorem arrival_order_decides_tie_counterexample:
  "mset [\<lparr>DSPId = 1, BidPrice = 20\<rparr>, \<lparr>DSPId = 2, BidPrice = 20\<rparr>, \<lparr>DSPId = 3, BidPrice = 5\<rparr>] =
   mset [\<lparr>DSPId = 3, BidPrice = 5\<rparr>, \<lparr>DSPId = 2, BidPrice = 20\<rparr>, \<lparr>DSPId = 1, BidPrice = 20\<rparr>] \<and>
   selectWinner [\<lparr>DSPId = 1, BidPrice = 20\<rparr>, \<lparr>DSPId = 2, BidPrice = 20\<rparr>, \<lparr>DSPId = 3, BidPrice = 5\<rparr>] =
     Inr \<lparr>DSPId = 2, BidPrice = 20\<rparr> \<and>
   selectWinner [\<lparr>DSPId = 3, BidPrice = 5\<rparr>, \<lparr>DSPId = 2, BidPrice = 20\<rparr>, \<lparr>DSPId = 1, BidPrice = 20\<rparr>] =
     Inr \<lparr>DSPId = 1, BidPrice = 20\<rparr>"
  by (simp add: selectWinner_eval)

text \<open>
  C4, as the code has it: every permutation of a non-empty sequence of collected
  results gives a winner with the same offer, the maximum; it gives the same winner
  when no other entry shares that offer.
\<close>

theorem winner_offer_independent_of_arrival:
  assumes "mset dspResults' = mset dspResults" and "dspResults \<noteq> []"
  shows "\<exists>w w'. selectWinner dspResults = Inr w \<and> selectWinner dspResults' = Inr w' \<and>
     BidPrice w' = BidPrice w \<and>
     ((\<forall>r\<in>set dspResults. BidPrice r = BidPrice w \<longrightarrow> r = w) \<longrightarrow> w' = w)"
proof -
  have sets: "set dspResults' = set dspResults"
    using assms(1) by (rule mset_eq_setD)
  then have ne': "dspResults' \<noteq> []" using assms(2) by auto
  from selectWinner_maximum [OF assms(2)] obtain w where w: "selectWinner dspResults = Inr w"
    "w \<in> set dspResults" "BidPrice w = Max (BidPrice ` set dspResults)" by blast
  from selectWinner_maximum [OF ne'] obtain w' where w': "selectWinner dspResults' = Inr w'"
    "w' \<in> set dspResults'" "BidPrice w' = Max (BidPrice ` set dspResults')" by blast
  have "BidPrice w' = BidPrice w" using w(3) w'(3) sets by simp
  moreover have "(\<forall>r\<in>set dspResults. BidPrice r = BidPrice w \<longrightarrow> r = w) \<longrightarrow> w' = w"
    using w'(2) sets \<open>BidPrice w' = BidPrice w\<close> by blast
  ultimately show ?thesis using w(1) w'(1) by blast
qed

theorem winner_offer_independent_of_arrival_witness:
  "mset [\<lparr>DSPId = 3, BidPrice = 12\<rparr>, \<lparr>DSPId = 1, BidPrice = 10\<rparr>, \<lparr>DSPId = 2, BidPrice = 15\<rparr>] =
   mset [\<lparr>DSPId = 1, BidPrice = 10\<rparr>, \<lparr>DSPId = 2, BidPrice = 15\<rparr>, \<lparr>DSPId = 3, BidPrice = 12\<rparr>] \<and>
   [\<lparr>DSPId = 1, BidPrice = 10\<rparr>, \<lparr>DSPId = 2, BidPrice = 15\<rparr>, \<lparr>DSPId = 3, BidPrice = 12\<rparr>] \<noteq> [] \<and>
   (\<exists>w w'. selectWinner [\<lparr>DSPId = 1, BidPrice = 10\<rparr>, \<lparr>DSPId = 2, BidPrice = 15\<rparr>,
              \<lparr>DSPId = 3, BidPrice = 12\<rparr>] = Inr w \<and>
      selectWinner [\<lparr>DSPId = 3, BidPrice = 12\<rparr>, \<lparr>DSPId = 1, BidPrice = 10\<rparr>,
              \<lparr>DSPId = 2, BidPrice = 15\<rparr>] = Inr w' \<and>
      BidPrice w' = BidPrice w \<and> w' = w)"
proof -
  let ?a = "[\<lparr>DSPId = 1, BidPrice = 10\<rparr>, \<lparr>DSPId = 2, BidPrice = 15\<rparr>, \<lparr>DSPId = 3, BidPrice = 12\<rparr>]"
  let ?b = "[\<lparr>DSPId = 3, BidPrice = 12\<rparr>, \<lparr>DSPId = 1, BidPrice = 10\<rparr>, \<lparr>DSPId = 2, BidPrice = 15\<rparr>]"
  have perm: "mset ?b = mset ?a" by simp
  have ne: "?a \<noteq> []" by simp
  from winner_offer_independent_of_arrival [OF perm ne] obtain w w' where
    w: "selectWinner ?a = Inr w" "selectWinner ?b = Inr w'" "BidPrice w' = BidPrice w"
    "(\<forall>r\<in>set ?a. BidPrice r = BidPrice w \<longrightarrow> r = w) \<longrightarrow> w' = w" by blast
  have "selectWinner ?a = Inr \<lparr>DSPId = 2, BidPrice = 15\<rparr>" by (simp add: selectWinner_eval)
  then have "w = \<lparr>DSPId = 2, BidPrice = 15\<rparr>" using w(1) by simp
  then have "\<forall>r\<in>set ?a. BidPrice r = BidPrice w \<longrightarrow> r = w" by simp
  then have "w' = w" using w(4) by blast
  then show ?thesis using perm ne w(1,2,3) by blast
qed

section \<open>One auction round\<close>

lemma fixed_digits_numeral:
  "fixed_digits (numeral k) n = fixed_digits (pred_numeral k) (n div 10) @ [digit_char (n mod 10)]"
  by (simp only: numeral_eq_Suc fixed_digits.simps)

lemma FormatFloat_5: "FormatFloat 5 3 = ''5.000''"
  by (simp add: FormatFloat_def round_half_even_def fixed_digits_numeral digit_char_def Let_def)

lemma makeBidURL_5:
  "makeBidURL 5 1 = ''http://0:8080/bid?dsp=1&p=5.000''"
  "makeBidURL 5 2 = ''http://0:8080/bid?dsp=2&p=5.000''"
  "makeBidURL 5 3 = ''http://0:8080/bid?dsp=3&p=5.000''"
  using FormatFloat_5
  by (simp_all add: makeBidURL_def serverAddr_def bidParams_def Get_def Itoa_def digit_char_def)

lemma arrival_order_example: "arrival_order [3, 2, 1]" "arrival_order [2, 3, 1]"
  by (simp_all add: arrival_order_def MaxDSP_def upto_rec1)

lemma requested_askDSP: "requested (askDSP G U f i) = makeBidURL f i"
  by (simp add: askDSP_def Let_def split: sum.splits)

lemma sent_askDSP_Some:
  "sent (askDSP G U f i) = Some r \<longleftrightarrow>
   (\<exists>b resp. G (makeBidURL f i) = Inr b \<and> U b = Inr resp \<and>
      r = \<lparr>DSPId = i, BidPrice = Price resp\<rparr>)"
  by (auto simp: askDSP_def Let_def split: sum.splits)

lemma sent_askDSP_None:
  "sent (askDSP G U f i) = None \<longleftrightarrow>
   isl (G (makeBidURL f i)) \<or> (\<exists>b. G (makeBidURL f i) = Inr b \<and> isl (U b))"
  by (auto simp: askDSP_def Let_def split: sum.splits)

lemma DSPId_sent_askDSP: "sent (askDSP G U f i) = Some r \<Longrightarrow> DSPId r = i"
  by (auto simp: sent_askDSP_Some)

lemma arrival_order_set: "arrival_order arrival \<Longrightarrow> set arrival = {1..MaxDSP}"
  unfolding arrival_order_def by (drule mset_eq_setD) simp

lemma arrival_order_length: "arrival_order arrival \<Longrightarrow> length arrival = nat MaxDSP"
  unfolding arrival_order_def by (drule mset_eq_length) (simp add: MaxDSP_def)

lemma arrival_order_distinct: "arrival_order arrival \<Longrightarrow> distinct arrival"
  unfolding arrival_order_def using distinct_upto mset_eq_imp_distinct_iff by blast

lemma queue_HandlerAuction:
  "queue (HandlerAuction G U rnd arrival) =
   List.map_filter (\<lambda>dspId. sent (askDSP G U (rnd * 10) dspId)) arrival"
  by (simp add: HandlerAuction_def Let_def)

lemma collected_HandlerAuction:
  "collected (HandlerAuction G U rnd arrival) = queue (HandlerAuction G U rnd arrival)"
  by (simp add: HandlerAuction_def Let_def collect_eq)

lemma workers_HandlerAuction:
  "workers (HandlerAuction G U rnd arrival) = map (askDSP G U (rnd * 10)) [1..MaxDSP]"
  by (simp add: HandlerAuction_def Let_def)

lemma set_map_filter_Some: "set (List.map_filter f xs) = {y. \<exists>x\<in>set xs. f x = Some y}"
  by (induction xs) (auto simp: map_filter_simps split: option.splits)

lemma set_queue:
  "set (queue (HandlerAuction G U rnd arrival)) =
   {r. \<exists>i\<in>set arrival. sent (askDSP G U (rnd * 10) i) = Some r}"
  by (simp add: queue_HandlerAuction set_map_filter_Some)

lemma length_queue: "length (queue (HandlerAuction G U rnd arrival)) \<le> length arrival"
  by (simp add: queue_HandlerAuction List.map_filter_def)

lemma map_DSPId_queue:
  "map DSPId (queue (HandlerAuction G U rnd arrival)) =
   filter (\<lambda>i. sent (askDSP G U (rnd * 10) i) \<noteq> None) arrival"
proof -
  have "map DSPId (List.map_filter (\<lambda>i. sent (askDSP G U f i)) xs) =
        filter (\<lambda>i. sent (askDSP G U f i) \<noteq> None) xs" for f xs
    by (induction xs) (auto simp: List.map_filter_def DSPId_sent_askDSP)
  then show ?thesis by (simp add: queue_HandlerAuction)
qed


section \<open>One auction round: the claims\<close>

text \<open>
  C7. Every auction round issues exactly \<open>MaxDSP = 3\<close> bid calls, one for each bidder
  identity 1, 2, 3, and the three URLs carry the same floor price, the one the round
  generated, as \<^verbatim>\<open>FormatFloat\<close> prints it.
\<close>

theorem round_issues_one_call_per_bidder:
  "floorPrice (HandlerAuction client_Get json_Unmarshal rnd arrival) = rnd * 10 \<and>
   map requested (workers (HandlerAuction client_Get json_Unmarshal rnd arrival)) =
     [''http://0:8080/bid?dsp=1&p='' @ FormatFloat (rnd * 10) 3,
      ''http://0:8080/bid?dsp=2&p='' @ FormatFloat (rnd * 10) 3,
      ''http://0:8080/bid?dsp=3&p='' @ FormatFloat (rnd * 10) 3]"
proof -
  have "[1..MaxDSP] = [1, 2, 3]" by (simp add: MaxDSP_def upto_rec1)
  then show ?thesis
    by (simp add: HandlerAuction_def Let_def requested_askDSP makeBidURL_def serverAddr_def
        bidParams_def Get_def Itoa_def digit_char_def)
qed


text \<open>
  C8. The claim: whatever each bidder's call does, a worker whose call fails or whose
  body does not decode delivers nothing, and the auction still completes and selects a
  winner among the remaining respondents. When all three fail there is no respondent
  left and the round does not complete: it panics on the empty slice.
\<close>

theorem all_bidders_time_out_counterexample:
  "collected (HandlerAuction (\<lambda>url. Inl ''context deadline exceeded'') (\<lambda>body. Inr \<lparr>Price = 0\<rparr>)
     (1 / 2) [3, 1, 2]) = [] \<and>
   winner (HandlerAuction (\<lambda>url. Inl ''context deadline exceeded'') (\<lambda>body. Inr \<lparr>Price = 0\<rparr>)
     (1 / 2) [3, 1, 2]) = Inl (IndexOutOfRange (- 1))"
  by (simp add: HandlerAuction_def askDSP_def collect_eq List.map_filter_def Let_def
      selectWinner_Nil)

text \<open>
  C8, as the code has it: in every round, for every pattern of outcomes and every
  arrival order, a worker whose call fails or whose body does not decode leaves no
  entry in the collected results; the result of every worker that succeeds is
  collected, whatever the other workers do; and when at least one result is collected
  the round selects a winner among the collected results, with the maximum offer.
\<close>

theorem failures_are_contained:
  assumes "arrival_order arrival"
  shows
    "(\<forall>i. isl (client_Get (makeBidURL (rnd * 10) i)) \<or>
          (\<exists>b. client_Get (makeBidURL (rnd * 10) i) = Inr b \<and> isl (json_Unmarshal b)) \<longrightarrow>
          (\<forall>r\<in>set (collected (HandlerAuction client_Get json_Unmarshal rnd arrival)). DSPId r \<noteq> i)) \<and>
     (\<forall>i b resp. 1 \<le> i \<and> i \<le> MaxDSP \<and> client_Get (makeBidURL (rnd * 10) i) = Inr b \<and>
          json_Unmarshal b = Inr resp \<longrightarrow>
          \<lparr>DSPId = i, BidPrice = Price resp\<rparr> \<in>
            set (collected (HandlerAuction client_Get json_Unmarshal rnd arrival))) \<and>
     (collected (HandlerAuction client_Get json_Unmarshal rnd arrival) \<noteq> [] \<longrightarrow>
        (\<exists>w. winner (HandlerAuction client_Get json_Unmarshal rnd arrival) = Inr w \<and>
           w \<in> set (collected (HandlerAuction client_Get json_Unmarshal rnd arrival)) \<and>
           BidPrice w =
             Max (BidPrice ` set (collected (HandlerAuction client_Get json_Unmarshal rnd arrival)))))"
proof (intro conjI allI impI)
  fix i
  assume fails: "isl (client_Get (makeBidURL (rnd * 10) i)) \<or>
    (\<exists>b. client_Get (makeBidURL (rnd * 10) i) = Inr b \<and> isl (json_Unmarshal b))"
  then have none: "sent (askDSP client_Get json_Unmarshal (rnd * 10) i) = None"
    by (simp add: sent_askDSP_None)
  show "\<forall>r\<in>set (collected (HandlerAuction client_Get json_Unmarshal rnd arrival)). DSPId r \<noteq> i"
  proof
    fix r
    assume "r \<in> set (collected (HandlerAuction client_Get json_Unmarshal rnd arrival))"
    then obtain j where j: "sent (askDSP client_Get json_Unmarshal (rnd * 10) j) = Some r"
      by (auto simp: collected_HandlerAuction set_queue)
    then have "DSPId r = j" by (rule DSPId_sent_askDSP)
    then show "DSPId r \<noteq> i" using j none by auto
  qed
next
  fix i b resp
  assume ok: "1 \<le> i \<and> i \<le> MaxDSP \<and> client_Get (makeBidURL (rnd * 10) i) = Inr b \<and>
    json_Unmarshal b = Inr resp"
  then have "i \<in> set arrival" using arrival_order_set [OF assms] by simp
  moreover have "sent (askDSP client_Get json_Unmarshal (rnd * 10) i) =
      Some \<lparr>DSPId = i, BidPrice = Price resp\<rparr>"
    using ok by (simp add: sent_askDSP_Some)
  ultimately show "\<lparr>DSPId = i, BidPrice = Price resp\<rparr> \<in>
      set (collected (HandlerAuction client_Get json_Unmarshal rnd arrival))"
    by (auto simp: collected_HandlerAuction set_queue)
next
  assume "collected (HandlerAuction client_Get json_Unmarshal rnd arrival) \<noteq> []"
  then show "\<exists>w. winner (HandlerAuction client_Get json_Unmarshal rnd arrival) = Inr w \<and>
      w \<in> set (collected (HandlerAuction client_Get json_Unmarshal rnd arrival)) \<and>
      BidPrice w =
        Max (BidPrice ` set (collected (HandlerAuction client_Get json_Unmarshal rnd arrival)))"
    unfolding winner_HandlerAuction by (rule selectWinner_maximum)
qed

theorem failures_are_contained_witness:
  "arrival_order [3, 2, 1] \<and>
   isl (example_Get (makeBidURL (1 / 2 * 10) 2)) \<and>
   list_all (\<lambda>r. DSPId r \<noteq> 2)
     (collected (HandlerAuction example_Get example_Unmarshal (1 / 2) [3, 2, 1])) \<and>
   \<lparr>DSPId = 1, BidPrice = 102 / 10\<rparr> \<in>
     set (collected (HandlerAuction example_Get example_Unmarshal (1 / 2) [3, 2, 1])) \<and>
   \<lparr>DSPId = 3, BidPrice = 121 / 10\<rparr> \<in>
     set (collected (HandlerAuction example_Get example_Unmarshal (1 / 2) [3, 2, 1])) \<and>
   (\<exists>w. winner (HandlerAuction example_Get example_Unmarshal (1 / 2) [3, 2, 1]) = Inr w \<and>
      w \<in> set (collected (HandlerAuction example_Get example_Unmarshal (1 / 2) [3, 2, 1])) \<and>
      BidPrice w =
        Max (BidPrice ` set (collected (HandlerAuction example_Get example_Unmarshal (1 / 2) [3, 2, 1]))))"
proof -
  let ?R = "HandlerAuction example_Get example_Unmarshal (1 / 2) [3, 2, 1]"
  note inst = failures_are_contained [OF arrival_order_example(1), of example_Get "1 / 2" example_Unmarshal]
  have fail2: "isl (example_Get (makeBidURL (1 / 2 * 10) 2))"
    by (simp add: makeBidURL_5 example_Get_def)
  have ok1: "1 \<le> (1::int) \<and> 1 \<le> MaxDSP \<and> example_Get (makeBidURL (1 / 2 * 10) 1) = Inr ''10.2'' \<and>
      example_Unmarshal ''10.2'' = Inr \<lparr>Price = 102 / 10\<rparr>"
    by (simp add: makeBidURL_5 example_Get_def example_Unmarshal_def MaxDSP_def)
  have ok3: "1 \<le> (3::int) \<and> 3 \<le> MaxDSP \<and> example_Get (makeBidURL (1 / 2 * 10) 3) = Inr ''12.1'' \<and>
      example_Unmarshal ''12.1'' = Inr \<lparr>Price = 121 / 10\<rparr>"
    by (simp add: makeBidURL_5 example_Get_def example_Unmarshal_def MaxDSP_def)
  have a: "list_all (\<lambda>r. DSPId r \<noteq> 2) (collected ?R)"
    using inst fail2 unfolding list_all_iff by blast
  have b: "\<lparr>DSPId = 1, BidPrice = 102 / 10\<rparr> \<in> set (collected ?R)"
    using inst ok1 by (metis Resp.select_convs(1))
  have c: "\<lparr>DSPId = 3, BidPrice = 121 / 10\<rparr> \<in> set (collected ?R)"
    using inst ok3 by (metis Resp.select_convs(1))
  have "collected ?R \<noteq> []" using b by auto
  then have d: "\<exists>w. winner ?R = Inr w \<and> w \<in> set (collected ?R) \<and>
      BidPrice w = Max (BidPrice ` set (collected ?R))"
    using inst by blast
  show ?thesis using arrival_order_example(1) fail2 a b c d by blast
qed

text \<open>
  C9. Throughout a round, after any number \<open>n\<close> of results taken from the channel, the
  collected results hold at most \<open>MaxDSP\<close> entries, each with a bidder identity between
  1 and \<open>MaxDSP\<close>, and no identity twice: a worker contributes at most one result.
\<close>

theorem collected_results_bounded:
  assumes "arrival_order arrival"
  shows
    "length (collect (take n (queue (HandlerAuction client_Get json_Unmarshal rnd arrival))))
       \<le> nat MaxDSP \<and>
     (\<forall>r\<in>set (collect (take n (queue (HandlerAuction client_Get json_Unmarshal rnd arrival)))).
        1 \<le> DSPId r \<and> DSPId r \<le> MaxDSP) \<and>
     distinct (map DSPId
       (collect (take n (queue (HandlerAuction client_Get json_Unmarshal rnd arrival))))) \<and>
     collected (HandlerAuction client_Get json_Unmarshal rnd arrival) =
       collect (queue (HandlerAuction client_Get json_Unmarshal rnd arrival))"
proof -
  let ?q = "queue (HandlerAuction client_Get json_Unmarshal rnd arrival)"
  have "length (take n ?q) \<le> length arrival"
    using length_queue [of client_Get json_Unmarshal rnd arrival] by simp
  then have len: "length (collect (take n ?q)) \<le> nat MaxDSP"
    using arrival_order_length [OF assms] by (simp add: collect_eq)
  have ids: "\<forall>r\<in>set (collect (take n ?q)). 1 \<le> DSPId r \<and> DSPId r \<le> MaxDSP"
  proof
    fix r
    assume "r \<in> set (collect (take n ?q))"
    then have "r \<in> set ?q" by (auto simp: collect_eq dest: in_set_takeD)
    then obtain i where i: "i \<in> set arrival"
      "sent (askDSP client_Get json_Unmarshal (rnd * 10) i) = Some r"
      by (auto simp: set_queue)
    have "DSPId r = i" using i(2) by (rule DSPId_sent_askDSP)
    then show "1 \<le> DSPId r \<and> DSPId r \<le> MaxDSP"
      using i(1) arrival_order_set [OF assms] by simp
  qed
  have "distinct (map DSPId ?q)"
    using arrival_order_distinct [OF assms] by (simp add: map_DSPId_queue)
  then have "distinct (take n (map DSPId ?q))" by (rule distinct_take)
  then have dist: "distinct (map DSPId (collect (take n ?q)))"
    by (simp add: collect_eq take_map)
  show ?thesis using len ids dist by (simp add: collected_HandlerAuction collect_eq)
qed


theorem collected_results_bounded_witness:
  "arrival_order [2, 3, 1] \<and>
   length (collect (take 2 (queue (HandlerAuction example_Get example_Unmarshal (1 / 2) [2, 3, 1]))))
     \<le> nat MaxDSP \<and>
   list_all (\<lambda>r. 1 \<le> DSPId r \<and> DSPId r \<le> MaxDSP)
     (collect (take 2 (queue (HandlerAuction example_Get example_Unmarshal (1 / 2) [2, 3, 1])))) \<and>
   distinct (map DSPId
     (collect (take 2 (queue (HandlerAuction example_Get example_Unmarshal (1 / 2) [2, 3, 1]))))) \<and>
   collected (HandlerAuction example_Get example_Unmarshal (1 / 2) [2, 3, 1]) =
     collect (queue (HandlerAuction example_Get example_Unmarshal (1 / 2) [2, 3, 1])) \<and>
   queue (HandlerAuction example_Get example_Unmarshal (1 / 2) [2, 3, 1]) =
     [\<lparr>DSPId = 3, BidPrice = 121 / 10\<rparr>, \<lparr>DSPId = 1, BidPrice = 102 / 10\<rparr>]"
proof -
  have q: "queue (HandlerAuction example_Get example_Unmarshal (1 / 2) [2, 3, 1]) =
     [\<lparr>DSPId = 3, BidPrice = 121 / 10\<rparr>, \<lparr>DSPId = 1, BidPrice = 102 / 10\<rparr>]"
    by (simp add: queue_HandlerAuction askDSP_def makeBidURL_5 example_Get_def
        example_Unmarshal_def map_filter_simps Let_def)
  show ?thesis
    using arrival_order_example(2) q
      collected_results_bounded [OF arrival_order_example(2), of 2 example_Get example_Unmarshal "1 / 2"]
    unfolding list_all_iff by blast
qed

section \<open>The bid endpoint\<close>








lemma ParseUint_loop_nondigit:
  "\<exists>c\<in>set s. \<not> is_digit c \<Longrightarrow> isl (ParseUint_loop n s)"
  by (induction s arbitrary: n) (auto simp: Let_def)

lemma ParseUint_nondigit: "s = [] \<or> (\<exists>c\<in>set s. \<not> is_digit c) \<Longrightarrow> isl (ParseUint s)"
  using ParseUint_loop_nondigit [of s 0] by (auto simp: ParseUint_def)

lemma HandlerBid_bad_dsp:
  "isl (ParseUint (Get vars ''dsp'')) \<or>
   (\<exists>d. ParseUint (Get vars ''dsp'') = Inr d \<and> (d < 1 \<or> MaxDSP < int d)) \<Longrightarrow>
   HandlerBid ParseFloat vars rnd = HttpError 400 ''bad dsp parameter''"
  by (auto simp: HandlerBid_def isl_def split: sum.splits)

lemma HandlerBid_good_dsp:
  "ParseUint (Get vars ''dsp'') = Inr d \<Longrightarrow> 1 \<le> d \<Longrightarrow> int d \<le> MaxDSP \<Longrightarrow>
   HandlerBid ParseFloat vars rnd =
     (case ParseFloat (Get vars ''p'') of
        Inr floor' \<Rightarrow> Json \<lparr>Price = math_Round ((floor' + rnd * 100) * 100) / 100\<rparr>
      | Inl err \<Rightarrow> HttpError 400 ''bad p parameter'')"
  by (auto simp: HandlerBid_def split: sum.splits)


section \<open>The bid endpoint: the claims\<close>





text \<open>
  C6. The claim: a request whose \<open>dsp\<close> is not an integer in \<open>[1, N]\<close>, or whose \<open>p\<close> is
  missing or does not parse as a non-negative real, is answered 400 and no price is
  computed. The handler rejects the \<open>p\<close> that \<^verbatim>\<open>ParseFloat\<close> rejects and has no check of the
  sign: for \<open>p = -5\<close> it computes a price and answers 200 (the price 20 when the random
  number is \<open>1 / 4\<close>).
\<close>

theorem negative_floor_accepted_counterexample:
  "ParseFloat_decimal (Get ((\<lambda>key. [])(''dsp'' := [''1''], ''p'' := [''-5''])) ''p'') = Inr (- 5) \<and>
   HandlerBid ParseFloat_decimal ((\<lambda>key. [])(''dsp'' := [''1''], ''p'' := [''-5''])) (1 / 4)
     = Json \<lparr>Price = 20\<rparr>"
  by (simp add: HandlerBid_def Get_def ParseUint_def cutoff_def maxVal_def is_digit_def
      digit_val_def MaxDSP_def ParseFloat_decimal_def math_Round_def Let_def)

text \<open>
  C6, as the code has it: a request whose \<open>dsp\<close> is empty or missing, has a character
  that is not a decimal digit, does not fit 32 bits or is a number outside
  \<open>[1, MaxDSP]\<close> is answered 400 with the text \<^verbatim>\<open>bad dsp parameter\<close>; a request with a good
  \<open>dsp\<close> whose \<open>p\<close> is rejected by \<^verbatim>\<open>ParseFloat\<close> (as a missing \<open>p\<close>, the empty string, is)
  is answered 400 with the text \<^verbatim>\<open>bad p parameter\<close>. In both cases the response holds
  no price.
\<close>

theorem bad_parameters_are_rejected:
  "(Get vars ''dsp'' = [] \<or> (\<exists>c\<in>set (Get vars ''dsp''). \<not> is_digit c) \<or>
    isl (ParseUint (Get vars ''dsp'')) \<or>
    (\<exists>d. ParseUint (Get vars ''dsp'') = Inr d \<and> (d < 1 \<or> MaxDSP < int d)) \<longrightarrow>
    HandlerBid ParseFloat vars rnd = HttpError 400 ''bad dsp parameter'') \<and>
   ((\<exists>d. ParseUint (Get vars ''dsp'') = Inr d \<and> 1 \<le> d \<and> int d \<le> MaxDSP) \<and>
    isl (ParseFloat (Get vars ''p'')) \<longrightarrow>
    HandlerBid ParseFloat vars rnd = HttpError 400 ''bad p parameter'')"
proof (intro conjI impI)
  assume "Get vars ''dsp'' = [] \<or> (\<exists>c\<in>set (Get vars ''dsp''). \<not> is_digit c) \<or>
    isl (ParseUint (Get vars ''dsp'')) \<or>
    (\<exists>d. ParseUint (Get vars ''dsp'') = Inr d \<and> (d < 1 \<or> MaxDSP < int d))"
  then have "isl (ParseUint (Get vars ''dsp'')) \<or>
    (\<exists>d. ParseUint (Get vars ''dsp'') = Inr d \<and> (d < 1 \<or> MaxDSP < int d))"
    using ParseUint_nondigit [of "Get vars ''dsp''"] by blast
  then show "HandlerBid ParseFloat vars rnd = HttpError 400 ''bad dsp parameter''"
    by (rule HandlerBid_bad_dsp)
next
  assume a: "(\<exists>d. ParseUint (Get vars ''dsp'') = Inr d \<and> 1 \<le> d \<and> int d \<le> MaxDSP) \<and>
    isl (ParseFloat (Get vars ''p''))"
  then obtain d where d: "ParseUint (Get vars ''dsp'') = Inr d" "1 \<le> d" "int d \<le> MaxDSP"
    by blast
  obtain e where "ParseFloat (Get vars ''p'') = Inl e" using a by (auto simp: isl_def)
  then show "HandlerBid ParseFloat vars rnd = HttpError 400 ''bad p parameter''"
    by (simp add: HandlerBid_good_dsp [OF d])
qed

theorem bad_parameters_are_rejected_witness:
  "ParseUint (Get ((\<lambda>key. [])(''dsp'' := [''4''], ''p'' := [''5.004''])) ''dsp'') = Inr 4 \<and>
   MaxDSP < int 4 \<and>
   HandlerBid ParseFloat_decimal ((\<lambda>key. [])(''dsp'' := [''4''], ''p'' := [''5.004''])) (1 / 8)
     = HttpError 400 ''bad dsp parameter'' \<and>
   \<not> is_digit CHR ''.'' \<and>
   HandlerBid ParseFloat_decimal ((\<lambda>key. [])(''dsp'' := [''1.5''], ''p'' := [''5.004''])) (1 / 8)
     = HttpError 400 ''bad dsp parameter'' \<and>
   ParseUint (Get ((\<lambda>key. [])(''dsp'' := [''3''])) ''dsp'') = Inr 3 \<and>
   Get ((\<lambda>key. [])(''dsp'' := [''3''])) ''p'' = [] \<and>
   isl (ParseFloat_decimal (Get ((\<lambda>key. [])(''dsp'' := [''3''])) ''p'')) \<and>
   HandlerBid ParseFloat_decimal ((\<lambda>key. [])(''dsp'' := [''3''])) (1 / 8)
     = HttpError 400 ''bad p parameter''"
proof -
  let ?high = "(\<lambda>key. [])(''dsp'' := [''4''], ''p'' := [''5.004''])"
  let ?frac = "(\<lambda>key. [])(''dsp'' := [''1.5''], ''p'' := [''5.004''])"
  let ?nop = "(\<lambda>key. [])(''dsp'' := [''3''])"
  have high: "ParseUint (Get ?high ''dsp'') = Inr 4" "MaxDSP < int 4"
    by (simp_all add: Get_def ParseUint_def cutoff_def maxVal_def is_digit_def digit_val_def
        MaxDSP_def)
  have frac: "\<not> is_digit CHR ''.''" "CHR ''.'' \<in> set (Get ?frac ''dsp'')"
    by (simp_all add: Get_def is_digit_def)
  have nop: "ParseUint (Get ?nop ''dsp'') = Inr 3" "1 \<le> (3::nat)" "int 3 \<le> MaxDSP"
    "Get ?nop ''p'' = []" "isl (ParseFloat_decimal (Get ?nop ''p''))"
    by (simp_all add: Get_def ParseUint_def cutoff_def maxVal_def is_digit_def digit_val_def
        MaxDSP_def ParseFloat_decimal_def)
  have 1: "HandlerBid ParseFloat_decimal ?high (1 / 8) = HttpError 400 ''bad dsp parameter''"
    using bad_parameters_are_rejected [of ?high ParseFloat_decimal "1 / 8"] high by blast
  have 2: "HandlerBid ParseFloat_decimal ?frac (1 / 8) = HttpError 400 ''bad dsp parameter''"
    using bad_parameters_are_rejected [of ?frac ParseFloat_decimal "1 / 8"] frac by blast
  have 3: "HandlerBid ParseFloat_decimal ?nop (1 / 8) = HttpError 400 ''bad p parameter''"
    using bad_parameters_are_rejected [of ?nop ParseFloat_decimal "1 / 8"] nop by blast
  show ?thesis using high frac(1) nop(1,4,5) 1 2 3 by simp
qed

section \<open>Decimal strings\<close>

lemma digit_cases: "d < 10 \<Longrightarrow> d \<in> {0, 1, 2, 3, 4, 5, 6, 7, 8, 9::nat}"
  by auto

lemma is_digit_digit_char: "d < 10 \<Longrightarrow> is_digit (digit_char d)"
  by (drule digit_cases) (auto simp: is_digit_def digit_char_def)

lemma digit_val_digit_char: "d < 10 \<Longrightarrow> digit_val (digit_char d) = d"
  by (drule digit_cases) (auto simp: digit_val_def digit_char_def)

lemma not_digit_point: "\<not> is_digit CHR ''.''"
  by (simp add: is_digit_def)

lemma not_sign_digit: "is_digit c \<Longrightarrow> c \<noteq> CHR ''-'' \<and> c \<noteq> CHR ''+''"
  by (auto simp: is_digit_def)

declare utoa.simps [simp del]

lemma utoa_not_Nil: "utoa n \<noteq> []"
  by (subst utoa.simps) simp

lemma digits_utoa: "c \<in> set (utoa n) \<Longrightarrow> is_digit c"
proof (induction n arbitrary: c rule: utoa.induct)
  case (1 n)
  show ?case
  proof (cases "n < 10")
    case True
    then show ?thesis using 1(2) by (subst (asm) utoa.simps) (simp add: is_digit_digit_char)
  next
    case False
    then have "c \<in> set (utoa (n div 10)) \<or> c = digit_char (n mod 10)"
      using 1(2) by (subst (asm) utoa.simps) auto
    then show ?thesis using 1(1) False by (auto simp: is_digit_digit_char)
  qed
qed

lemma digits_fixed_digits: "c \<in> set (fixed_digits k n) \<Longrightarrow> is_digit c"
  by (induction k arbitrary: n c) (auto simp: is_digit_digit_char)

lemma length_fixed_digits: "length (fixed_digits k n) = k"
  by (induction k arbitrary: n) auto

lemma digits_val_append: "digits_val acc (xs @ ys) = digits_val (digits_val acc xs) ys"
  by (induction xs arbitrary: acc) auto

lemma digits_val_utoa: "digits_val 0 (utoa n) = n"
proof (induction n rule: utoa.induct)
  case (1 n)
  show ?case
  proof (cases "n < 10")
    case True
    then show ?thesis by (subst utoa.simps) (simp add: digit_val_digit_char)
  next
    case False
    then have "digits_val 0 (utoa n) = digits_val 0 (utoa (n div 10)) * 10 + n mod 10"
      by (subst utoa.simps) (simp add: digits_val_append digit_val_digit_char)
    then show ?thesis using 1 False by simp
  qed
qed

lemma digits_val_fixed_digits: "digits_val acc (fixed_digits k n) = acc * 10 ^ k + n mod 10 ^ k"
proof (induction k arbitrary: n acc)
  case 0
  then show ?case by simp
next
  case (Suc k)
  have "digits_val acc (fixed_digits (Suc k) n) =
        (acc * 10 ^ k + (n div 10) mod 10 ^ k) * 10 + n mod 10"
    by (simp add: digits_val_append Suc digit_val_digit_char)
  also have "\<dots> = acc * 10 ^ Suc k + ((n div 10) mod 10 ^ k * 10 + n mod 10)"
    by (simp add: algebra_simps)
  also have "(n div 10) mod 10 ^ k * 10 + n mod 10 = n mod 10 ^ Suc k"
    by (simp add: mod_mult2_eq mult.commute)
  finally show ?case .
qed

lemma takeWhile_digits_point:
  "\<forall>c\<in>set ip. is_digit c \<Longrightarrow> takeWhile is_digit (ip @ CHR ''.'' # fp) = ip"
  by (induction ip) (simp_all add: not_digit_point)

lemma dropWhile_digits_point:
  "\<forall>c\<in>set ip. is_digit c \<Longrightarrow> dropWhile is_digit (ip @ CHR ''.'' # fp) = CHR ''.'' # fp"
  by (induction ip) (simp_all add: not_digit_point)

lemma takeWhile_digits: "\<forall>c\<in>set fp. is_digit c \<Longrightarrow> takeWhile is_digit fp = fp"
  by (induction fp) simp_all

lemma dropWhile_digits: "\<forall>c\<in>set fp. is_digit c \<Longrightarrow> dropWhile is_digit fp = []"
  by (induction fp) simp_all

lemma ParseFloat_decimal_plain:
  assumes "ip \<noteq> []" and "\<forall>c\<in>set ip. is_digit c" and "\<forall>c\<in>set fp. is_digit c"
  shows "ParseFloat_decimal (ip @ CHR ''.'' # fp) =
         Inr (real (digits_val 0 (ip @ fp)) / 10 ^ length fp)"
proof -
  obtain c cs where ip: "ip = c # cs" using assms(1) by (cases ip) auto
  have c: "c \<noteq> CHR ''-''" "c \<noteq> CHR ''+''"
    using assms(2) not_sign_digit [of c] by (simp_all add: ip)
  have tw: "takeWhile is_digit (c # cs @ CHR ''.'' # fp) = c # cs"
    using takeWhile_digits_point [OF assms(2), of fp] by (simp add: ip)
  have dw: "dropWhile is_digit (c # cs @ CHR ''.'' # fp) = CHR ''.'' # fp"
    using dropWhile_digits_point [OF assms(2), of fp] by (simp add: ip)
  have "ParseFloat_decimal (c # cs @ CHR ''.'' # fp) =
        Inr (real (digits_val 0 ((c # cs) @ fp)) / 10 ^ length fp)"
    by (simp add: ParseFloat_decimal_def Let_def c tw dw not_digit_point
        takeWhile_digits [OF assms(3)] dropWhile_digits [OF assms(3)]
        del: takeWhile.simps dropWhile.simps)
  then show ?thesis by (simp add: ip)
qed


section \<open>The floor price on its way to the bid endpoint\<close>

lemma round_half_even_cases:
  "round_half_even x = \<lfloor>x\<rfloor> \<and> x - of_int \<lfloor>x\<rfloor> \<le> 1 / 2 \<or>
   round_half_even x = \<lfloor>x\<rfloor> + 1 \<and> 1 / 2 \<le> x - of_int \<lfloor>x\<rfloor>"
  by (auto simp: round_half_even_def Let_def)

lemma round_half_even_near: "\<bar>of_int (round_half_even x) - x\<bar> \<le> 1 / 2"
proof -
  have "of_int \<lfloor>x\<rfloor> \<le> x" "x < of_int \<lfloor>x\<rfloor> + 1" by linarith+
  then show ?thesis using round_half_even_cases [of x] by (elim disjE conjE) simp_all
qed

lemma round_half_even_nonneg: "0 \<le> x \<Longrightarrow> 0 \<le> round_half_even x"
proof -
  assume "0 \<le> x"
  then have "0 \<le> \<lfloor>x\<rfloor>" by simp
  then show ?thesis using round_half_even_cases [of x] by (elim disjE conjE) simp_all
qed

lemma round_half_even_of_int: "round_half_even (of_int k) = k"
  by (simp add: round_half_even_def)

lemma round_half_even_exact:
  "of_int (round_half_even x) = x \<longleftrightarrow> (\<exists>k::int. x = of_int k)"
  by (metis round_half_even_of_int)

lemma FormatFloat_nonneg:
  "0 \<le> f \<Longrightarrow>
   FormatFloat f 3 =
     utoa (nat (round_half_even (f * 1000)) div 1000) @
     CHR ''.'' # fixed_digits 3 (nat (round_half_even (f * 1000)) mod 1000)"
  by (simp add: FormatFloat_def Let_def)

lemma ParseFloat_decimal_FormatFloat:
  assumes "0 \<le> f"
  shows "ParseFloat_decimal (FormatFloat f 3) = Inr (of_int (round_half_even (f * 1000)) / 1000)"
proof -
  define n where "n = nat (round_half_even (f * 1000))"
  have z: "0 \<le> round_half_even (f * 1000)"
    using assms by (intro round_half_even_nonneg) simp
  have "digits_val 0 (utoa (n div 1000) @ fixed_digits 3 (n mod 1000)) = n div 1000 * 10 ^ 3 + n mod 1000 mod 10 ^ 3"
    by (simp only: digits_val_append digits_val_utoa digits_val_fixed_digits)
  also have "\<dots> = n" by simp
  finally have val: "digits_val 0 (utoa (n div 1000) @ fixed_digits 3 (n mod 1000)) = n" .
  have "ParseFloat_decimal (utoa (n div 1000) @ CHR ''.'' # fixed_digits 3 (n mod 1000)) =
        Inr (real (digits_val 0 (utoa (n div 1000) @ fixed_digits 3 (n mod 1000))) /
             10 ^ length (fixed_digits 3 (n mod 1000)))"
    by (rule ParseFloat_decimal_plain) (auto simp: utoa_not_Nil digits_utoa digits_fixed_digits)
  then have "ParseFloat_decimal (FormatFloat f 3) = Inr (real n / 1000)"
    by (simp add: FormatFloat_nonneg [OF assms] n_def [symmetric] val length_fixed_digits)
  moreover have "real n = of_int (round_half_even (f * 1000))"
    using z by (simp add: n_def)
  ultimately show ?thesis by simp
qed

lemma FormatFloat_shape:
  assumes "0 \<le> f"
  shows "\<exists>ip fp. FormatFloat f 3 = ip @ ''.'' @ fp \<and> ip \<noteq> [] \<and> length fp = 3 \<and>
     (\<forall>c\<in>set (ip @ fp). is_digit c)"
proof -
  let ?n = "nat (round_half_even (f * 1000))"
  have "FormatFloat f 3 = utoa (?n div 1000) @ ''.'' @ fixed_digits 3 (?n mod 1000)"
    by (simp add: FormatFloat_nonneg [OF assms])
  moreover have "\<forall>c\<in>set (utoa (?n div 1000) @ fixed_digits 3 (?n mod 1000)). is_digit c"
    by (auto simp: digits_utoa digits_fixed_digits)
  ultimately show ?thesis
    using utoa_not_Nil [of "?n div 1000"] length_fixed_digits [of 3 "?n mod 1000"] by blast
qed

lemma ParseUint_Itoa: "1 \<le> i \<Longrightarrow> i \<le> MaxDSP \<Longrightarrow> ParseUint (Itoa i) = Inr (nat i)"
proof -
  assume "1 \<le> i" "i \<le> MaxDSP"
  then have "i = 1 \<or> i = 2 \<or> i = 3" by (auto simp: MaxDSP_def)
  then show ?thesis
    by (elim disjE)
      (simp_all add: Itoa_def utoa.simps digit_char_def ParseUint_def cutoff_def maxVal_def
        is_digit_def digit_val_def)
qed

lemma Get_bidParams:
  "Get (bidParams f i) ''dsp'' = Itoa i" "Get (bidParams f i) ''p'' = FormatFloat f 3"
  by (simp_all add: Get_def bidParams_def)

lemma HandlerBid_bidParams:
  assumes "0 \<le> f" and "1 \<le> i" and "i \<le> MaxDSP"
  shows "HandlerBid ParseFloat_decimal (bidParams f i) r =
     Json \<lparr>Price = math_Round ((of_int (round_half_even (f * 1000)) / 1000 + r * 100) * 100) / 100\<rparr>"
proof -
  have dsp: "ParseUint (Get (bidParams f i) ''dsp'') = Inr (nat i)"
    using assms(2,3) by (simp add: Get_bidParams ParseUint_Itoa)
  have "1 \<le> nat i" "int (nat i) \<le> MaxDSP" using assms(2,3) by simp_all
  from HandlerBid_good_dsp [OF dsp this] show ?thesis
    by (simp add: Get_bidParams ParseFloat_decimal_FormatFloat [OF assms(1)])
qed


section \<open>The floor price on its way to the bid endpoint: the claim\<close>

text \<open>
  C10. In every round (the random number \<open>rnd\<close> is not negative, so neither is the
  floor \<open>rnd * 10\<close>) the three URLs carry the same text \<open>ip.fp\<close> for the floor price: the
  generated floor printed with exactly three digits \<open>fp\<close> after the point. The number
  \<open>v\<close> that the bid endpoint parses from that text, and bids against, is the floor
  rounded to thousandths; it differs from the generated floor by at most 0.0005, and
  it equals the generated floor exactly when that floor is a whole number of
  thousandths.
\<close>

theorem bid_url_carries_floor_with_three_decimals:
  assumes "0 \<le> rnd"
  shows "\<exists>ip fp v.
     floorPrice (HandlerAuction client_Get json_Unmarshal rnd arrival) = rnd * 10 \<and>
     map requested (workers (HandlerAuction client_Get json_Unmarshal rnd arrival)) =
       map (\<lambda>i. ''http://0:8080/bid?dsp='' @ Itoa i @ ''&p='' @ ip @ ''.'' @ fp) [1, 2, 3] \<and>
     FormatFloat (rnd * 10) 3 = ip @ ''.'' @ fp \<and>
     ip \<noteq> [] \<and> length fp = 3 \<and> (\<forall>c\<in>set (ip @ fp). is_digit c) \<and>
     ParseFloat_decimal (ip @ ''.'' @ fp) = Inr v \<and>
     v = of_int (round_half_even (rnd * 10 * 1000)) / 1000 \<and>
     \<bar>v - rnd * 10\<bar> \<le> 5 / 10000 \<and>
     (v = rnd * 10 \<longleftrightarrow> (\<exists>k::int. rnd * 10 = of_int k / 1000)) \<and>
     (\<forall>i r. 1 \<le> i \<and> i \<le> MaxDSP \<longrightarrow>
        HandlerBid ParseFloat_decimal (bidParams (rnd * 10) i) r =
          Json \<lparr>Price = math_Round ((v + r * 100) * 100) / 100\<rparr>)"
proof -
  define f where "f = rnd * 10"
  define v :: real where "v = of_int (round_half_even (f * 1000)) / 1000"
  have f: "0 \<le> f" using assms by (simp add: f_def)
  from FormatFloat_shape [OF f] obtain ip fp where shape:
    "FormatFloat f 3 = ip @ ''.'' @ fp" "ip \<noteq> []" "length fp = 3"
    "\<forall>c\<in>set (ip @ fp). is_digit c" by blast
  have floor: "floorPrice (HandlerAuction client_Get json_Unmarshal rnd arrival) = f"
    by (simp add: HandlerAuction_def Let_def f_def)
  have "[1..MaxDSP] = [1, 2, 3]" by (simp add: MaxDSP_def upto_rec1)
  then have urls: "map requested (workers (HandlerAuction client_Get json_Unmarshal rnd arrival)) =
      map (\<lambda>i. ''http://0:8080/bid?dsp='' @ Itoa i @ ''&p='' @ ip @ ''.'' @ fp) [1, 2, 3]"
    using shape(1)
    by (simp add: workers_HandlerAuction requested_askDSP makeBidURL_def serverAddr_def
        Get_bidParams f_def)
  have parsed: "ParseFloat_decimal (ip @ ''.'' @ fp) = Inr v"
    using ParseFloat_decimal_FormatFloat [OF f] shape(1) by (simp add: v_def)
  have "\<bar>of_int (round_half_even (f * 1000)) - f * 1000\<bar> \<le> 1 / 2"
    by (rule round_half_even_near)
  then have near: "\<bar>v - f\<bar> \<le> 5 / 10000" unfolding v_def by linarith
  have "v = f \<longleftrightarrow> of_int (round_half_even (f * 1000)) = f * 1000"
    by (auto simp: v_def)
  also have "\<dots> \<longleftrightarrow> (\<exists>k::int. f * 1000 = of_int k)"
    by (rule round_half_even_exact)
  also have "\<dots> \<longleftrightarrow> (\<exists>k::int. f = of_int k / 1000)"
    by auto
  finally have exact: "v = f \<longleftrightarrow> (\<exists>k::int. f = of_int k / 1000)" .
  have bids: "\<forall>i r. 1 \<le> i \<and> i \<le> MaxDSP \<longrightarrow>
      HandlerBid ParseFloat_decimal (bidParams f i) r =
        Json \<lparr>Price = math_Round ((v + r * 100) * 100) / 100\<rparr>"
    using HandlerBid_bidParams [OF f] by (simp add: v_def)
  show ?thesis
    using floor urls shape parsed near exact bids unfolding v_def f_def by blast
qed

theorem bid_url_carries_floor_with_three_decimals_witness:
  "(0::real) \<le> 1 / 32 \<and>
   floorPrice (HandlerAuction example_Get example_Unmarshal (1 / 32) [1, 2, 3]) = 3125 / 10000 \<and>
   map requested (workers (HandlerAuction example_Get example_Unmarshal (1 / 32) [1, 2, 3])) =
     [''http://0:8080/bid?dsp=1&p=0.312'', ''http://0:8080/bid?dsp=2&p=0.312'',
      ''http://0:8080/bid?dsp=3&p=0.312''] \<and>
   ParseFloat_decimal ''0.312'' = Inr (312 / 1000) \<and>
   \<bar>312 / 1000 - 3125 / 10000\<bar> \<le> (5 / 10000 :: real) \<and>
   HandlerBid ParseFloat_decimal (bidParams (3125 / 10000) 2) 0 = Json \<lparr>Price = 31 / 100\<rparr>"
proof -
  have h: "(0::real) \<le> 1 / 32" by simp
  from bid_url_carries_floor_with_three_decimals [OF h, of example_Get example_Unmarshal "[1, 2, 3]"]
  obtain ip fp v where w:
    "floorPrice (HandlerAuction example_Get example_Unmarshal (1 / 32) [1, 2, 3]) = 1 / 32 * 10"
    "map requested (workers (HandlerAuction example_Get example_Unmarshal (1 / 32) [1, 2, 3])) =
       map (\<lambda>i. ''http://0:8080/bid?dsp='' @ Itoa i @ ''&p='' @ ip @ ''.'' @ fp) [1, 2, 3]"
    "FormatFloat (1 / 32 * 10) 3 = ip @ ''.'' @ fp"
    "ParseFloat_decimal (ip @ ''.'' @ fp) = Inr v"
    "v = of_int (round_half_even (1 / 32 * 10 * 1000)) / 1000"
    "\<bar>v - 1 / 32 * 10\<bar> \<le> 5 / 10000"
    "\<forall>i r. 1 \<le> i \<and> i \<le> MaxDSP \<longrightarrow>
        HandlerBid ParseFloat_decimal (bidParams (1 / 32 * 10) i) r =
          Json \<lparr>Price = math_Round ((v + r * 100) * 100) / 100\<rparr>"
    by blast
  have printed: "FormatFloat (1 / 32 * 10) 3 = ''0.312''"
    by (simp add: FormatFloat_def round_half_even_def fixed_digits_numeral digit_char_def
        utoa.simps Let_def)
  have v: "v = 312 / 1000"
    unfolding w(5) by (simp add: round_half_even_def)
  have same: "ip @ ''.'' @ fp = ''0.312''" using w(3) printed by simp
  have a: "floorPrice (HandlerAuction example_Get example_Unmarshal (1 / 32) [1, 2, 3]) = 3125 / 10000"
    using w(1) by simp
  have b: "map requested (workers (HandlerAuction example_Get example_Unmarshal (1 / 32) [1, 2, 3])) =
     [''http://0:8080/bid?dsp=1&p=0.312'', ''http://0:8080/bid?dsp=2&p=0.312'',
      ''http://0:8080/bid?dsp=3&p=0.312'']"
    unfolding w(2) using same by (simp add: Itoa_def utoa.simps digit_char_def)
  have c: "ParseFloat_decimal ''0.312'' = Inr (312 / 1000)"
    using w(4) same v by simp
  have d: "\<bar>312 / 1000 - 3125 / 10000\<bar> \<le> (5 / 10000 :: real)"
    using w(6) v by simp
  have "(1::int) \<le> 2 \<and> 2 \<le> MaxDSP" by (simp add: MaxDSP_def)
  then have "HandlerBid ParseFloat_decimal (bidParams (1 / 32 * 10) 2) 0 =
      Json \<lparr>Price = math_Round ((v + 0 * 100) * 100) / 100\<rparr>"
    using w(7) by blast
  then have e: "HandlerBid ParseFloat_decimal (bidParams (3125 / 10000) 2) 0 = Json \<lparr>Price = 31 / 100\<rparr>"
    by (simp add: v math_Round_def)
  show ?thesis using h a b c d e by blast
qed

end
